theory Spec2Isabelle
  imports Main
begin

section \<open>The world the downloader runs in\<close>

text \<open>
  The program of \<^verbatim>\<open>torrent_downloader.py\<close> computes almost nothing by itself: it sends
  JSON-RPC requests to a download engine, sleeps, reads the clock, looks at the disk, runs
  an external media tool and moves files. Each of these effects is explicit here.

  \<^item> The mutable part of the world is a record: the clock (\<^verbatim>\<open>time.time()\<close>, counted in
    milliseconds), the disk (a finite map from paths to the bytes of regular files;
    directories are not tracked, and the output directory is taken to exist), and a trace
    of the effects performed so far, in order.
  \<^item> The part the program cannot change is a record of oracles: what the engine answers
    to a request posted at a given instant and how long the answer takes, and what the
    media tool does for a given command line. No constraint is put on the oracles, so a
    theorem holds for every behaviour of the engine, the network and the tool.
  \<^item> Only I/O and \<^verbatim>\<open>time.sleep\<close> take time, and the clock never runs backwards.
  \<^item> The disk changes by what the program does to it (runs of the media tool, moves). The
    monitor looks at the disk once, when the engine reports the job complete: the disk of
    the world it is given stands for the disk at that moment.
  \<^item> The engine's answers are decoded along the schema of its protocol: a status query
    yields a status structure with optional fields, every other method yields a string.
\<close>

subsection \<open>Requests and answers\<close>

text \<open>One constructor per RPC method the program calls, with the parameters it passes.\<close>

datatype request =
    AddUri string                   \<comment> \<open>\<^verbatim>\<open>aria2.addUri\<close>, the magnet URI (the options bag is fixed)\<close>
  | AddTorrent string bool          \<comment> \<open>\<^verbatim>\<open>aria2.addTorrent\<close>, the descriptor's bytes (sent base64-encoded), the pause option\<close>
  | TellStatus string "string list" \<comment> \<open>\<^verbatim>\<open>aria2.tellStatus\<close>, the job handle, the selected keys\<close>
  | SelectFile string nat bool      \<comment> \<open>\<^verbatim>\<open>aria2.selectFile\<close>, the job handle, the index, the mark\<close>
  | Unpause string                  \<comment> \<open>\<^verbatim>\<open>aria2.unpause\<close>, the job handle\<close>
  | Remove string                   \<comment> \<open>\<^verbatim>\<open>aria2.remove\<close>, the job handle\<close>

text \<open>
  A decoded response body is a JSON object whose \<^verbatim>\<open>result\<close> key may be absent (an error
  envelope, or an empty object). The callers treat both in the same way.
\<close>

datatype 'a body = Body (result: "'a option")

record file_info =
  f_path :: "string option"            \<comment> \<open>\<^verbatim>\<open>f.get("path")\<close>\<close>

record status_info =
  st_status :: "string option"         \<comment> \<open>\<^verbatim>\<open>status.get("status", "")\<close>\<close>
  st_completedLength :: "int option"   \<comment> \<open>\<^verbatim>\<open>int(status.get("completedLength", 0))\<close>\<close>
  st_totalLength :: "int option"
  st_downloadSpeed :: "int option"
  st_files :: "file_info list option"  \<comment> \<open>\<^verbatim>\<open>status.get("files", [])\<close>\<close>

subsection \<open>Effects\<close>

datatype message =
    RpcCallFailed
  | ApplyingSelection
  | NoFileList
  | SelectedCount nat
  | Monitoring string
  | Progress string int int int int    \<comment> \<open>name, completed, total, speed, eta\<close>
  | DownloadCompleted string
  | DownloadFailed string
  | TimedOut string
  | ExtractingSubtitles string
  | ExtractedLanguage string
  | ExtractedFirstAvailable
  | NoSubtitlesFound
  | ProcessingFiles nat string
  | ProcessingFile string nat
  | CompletedProcessing string
  | StartingDownload string
  | UnsupportedItem string
  | AddTorrentFailed
  | DownloadException

datatype event =
    Posted request int       \<comment> \<open>\<^verbatim>\<open>requests.post\<close>: one HTTP attempt, and the instant it is sent\<close>
  | Slept nat                \<comment> \<open>\<^verbatim>\<open>time.sleep\<close>, in seconds\<close>
  | Printed message          \<comment> \<open>\<^verbatim>\<open>print\<close>\<close>
  | Ran "string list"        \<comment> \<open>\<^verbatim>\<open>subprocess.run\<close>, the command line\<close>
  | Moved string string      \<comment> \<open>\<^verbatim>\<open>shutil.move\<close>, source and destination path\<close>

record world =
  clock :: int
  disk :: "string \<rightharpoonup> string"
  trace :: "event list"

text \<open>
  The outcome of one run of the media tool: the call raises (the 30 second limit,
  a missing executable) or the tool exits with a return code; either way it has written
  the output file (\<open>Some\<close> of its bytes) or left the disk as it was (\<open>None\<close>).
\<close>

datatype tool_outcome = ToolRaises "string option" | ToolExits int "string option"

text \<open>
  An HTTP attempt posted at instant \<open>t\<close> lasts \<open>d\<close> milliseconds and either yields a decoded
  body or fails: transport failure, a status outside 2xx, no answer within the wait of
  15 seconds, a body that is not JSON. All four raise inside the \<^verbatim>\<open>try\<close> of the source.
\<close>

type_synonym 'a channel = "request \<Rightarrow> int \<Rightarrow> nat \<times> 'a body option"

record env =
  rpc_status :: "status_info channel"
  rpc_command :: "string channel"
  ffmpeg :: "string list \<Rightarrow> tool_outcome"

definition emit :: "event \<Rightarrow> world \<Rightarrow> world" where
  "emit ev w = w\<lparr>trace := trace w @ [ev]\<rparr>"

definition print :: "message \<Rightarrow> world \<Rightarrow> world" where
  "print m w = emit (Printed m) w"

definition sleep :: "nat \<Rightarrow> world \<Rightarrow> world" where
  "sleep s w = emit (Slept s) (w\<lparr>clock := clock w + 1000 * int s\<rparr>)"

definition post :: "'a channel \<Rightarrow> request \<Rightarrow> world \<Rightarrow> 'a body option \<times> world" where
  "post ch req w =
     (case ch req (clock w) of
        (d, r) \<Rightarrow> (r, emit (Posted req (clock w)) (w\<lparr>clock := clock w + int d\<rparr>)))"

section \<open>The control channel\<close>

text \<open>
  \<^verbatim>\<open>aria2_call\<close>: the loop \<^verbatim>\<open>for attempt in range(retries)\<close>. An attempt that succeeds
  returns its body. An attempt that raises is the last one when
  \<^verbatim>\<open>attempt == retries - 1\<close>: the failure is printed and the call returns \<^verbatim>\<open>None\<close>;
  otherwise the loop sleeps one second and goes on. With \<open>retries = 0\<close> the loop body
  never runs and the call returns \<^verbatim>\<open>None\<close> silently.
\<close>

function aria2_attempts ::
  "'a channel \<Rightarrow> request \<Rightarrow> nat \<Rightarrow> nat \<Rightarrow> world \<Rightarrow> 'a body option \<times> world" where
  "aria2_attempts ch req retries attempt w =
     (if attempt < retries then
        (case post ch req w of
           (Some b, w1) \<Rightarrow> (Some b, w1)
         | (None, w1) \<Rightarrow>
             if attempt = retries - 1 then (None, print RpcCallFailed w1)
             else aria2_attempts ch req retries (attempt + 1) (sleep 1 w1))
      else (None, w))"
  by pat_completeness auto
termination
  by (relation "measure (\<lambda>(ch, req, retries, attempt, w). retries - attempt)") auto

definition aria2_call :: "'a channel \<Rightarrow> request \<Rightarrow> world \<Rightarrow> 'a body option \<times> world" where
  "aria2_call ch req w = aria2_attempts ch req 3 0 w"

declare aria2_attempts.simps [simp del]

section \<open>The selection applier\<close>

text \<open>
  \<^verbatim>\<open>get_torrent_files\<close>: the loop \<^verbatim>\<open>while time.time() - start_time < timeout\<close>. A poll
  whose answer carries a non-empty file list returns it; any other poll is followed by a
  sleep of one second. When the loop ends by its deadline the result is the empty list.
\<close>

function get_torrent_files_loop ::
  "env \<Rightarrow> string \<Rightarrow> int \<Rightarrow> int \<Rightarrow> world \<Rightarrow> file_info list \<times> world" where
  "get_torrent_files_loop e gid timeout start_time w =
     (if clock w - start_time < 1000 * timeout then
        (case aria2_call (rpc_status e) (TellStatus gid [''files'']) w of
           (Some (Body (Some st)), w1) \<Rightarrow>
             (let files = (case st_files st of None \<Rightarrow> [] | Some fs \<Rightarrow> fs) in
              if files \<noteq> [] then (files, w1)
              else get_torrent_files_loop e gid timeout start_time (sleep 1 w1))
         | (_, w1) \<Rightarrow> get_torrent_files_loop e gid timeout start_time (sleep 1 w1))
      else ([], w))"
  by pat_completeness auto
termination
proof -
  have mono: "clock w \<le> clock w1" if "(r, w1) = aria2_call ch req w"
    for ch :: "status_info channel" and req w r w1
    using that
    by (auto simp add: aria2_call_def aria2_attempts.simps post_def emit_def sleep_def print_def
        split: prod.splits option.splits if_splits)
  show ?thesis
  proof (relation "measure (\<lambda>(e, gid, timeout, start_time, w). nat (start_time + 1000 * timeout - clock w))", goal_cases)
    case 1
    show ?case by simp
  next
    case 2
    then show ?case by (auto simp add: sleep_def emit_def dest!: mono)
  next
    case 3
    then show ?case by (auto simp add: sleep_def emit_def dest!: mono)
  next
    case 4
    then show ?case by (auto simp add: sleep_def emit_def dest!: mono)
  qed
qed

declare get_torrent_files_loop.simps [simp del]

definition get_torrent_files :: "env \<Rightarrow> string \<Rightarrow> int \<Rightarrow> world \<Rightarrow> file_info list \<times> world" where
  "get_torrent_files e gid timeout w = get_torrent_files_loop e gid timeout (clock w) w"

text \<open>
  \<^verbatim>\<open>apply_file_selection\<close>. The loop \<^verbatim>\<open>for i in range(len(files))\<close> is a fold over
  \<open>[0..<length files]\<close>; the value every \<^verbatim>\<open>aria2_call\<close> returns is dropped, as in the
  source. \<^verbatim>\<open>selected_files\<close> is a list of Python integers.
\<close>

definition select_file :: "env \<Rightarrow> string \<Rightarrow> int list \<Rightarrow> nat \<Rightarrow> world \<Rightarrow> world" where
  "select_file e gid selected_files i w =
     (let select = (int i \<in> set selected_files) in
      snd (aria2_call (rpc_command e) (SelectFile gid i select) w))"

definition apply_file_selection :: "env \<Rightarrow> string \<Rightarrow> int list \<Rightarrow> world \<Rightarrow> world" where
  "apply_file_selection e gid selected_files w =
     (case get_torrent_files e gid 15 (print ApplyingSelection w) of
        (files, w1) \<Rightarrow>
          if files = [] then
            snd (aria2_call (rpc_command e) (Unpause gid) (print NoFileList w1))
          else
            (let w2 = fold (select_file e gid selected_files) [0..<length files] w1;
                 w3 = print (SelectedCount (length selected_files)) w2
             in snd (aria2_call (rpc_command e) (Unpause gid) w3)))"

section \<open>The session monitor\<close>

text \<open>
  \<^verbatim>\<open>os.path.exists\<close>: the empty path names nothing; any other path exists when the disk
  holds it. \<^verbatim>\<open>os.path.getsize\<close> raises for a path that does not exist (\<open>None\<close>).
\<close>

definition path_exists :: "world \<Rightarrow> string \<Rightarrow> bool" where
  "path_exists w p = (p \<noteq> [] \<and> disk w p \<noteq> None)"

definition getsize :: "world \<Rightarrow> string \<Rightarrow> nat option" where
  "getsize w p = (if path_exists w p then map_option length (disk w p) else None)"

text \<open>The keys \<^verbatim>\<open>monitor_download\<close> asks for.\<close>

definition status_keys :: "string list" where
  "status_keys = [''status'', ''completedLength'', ''totalLength'', ''downloadSpeed'', ''files'']"

text \<open>
  The block under \<^verbatim>\<open># Progress updates every 5 seconds\<close>: it returns the new value of
  \<^verbatim>\<open>last_update\<close>. The percentage (a float) and the formatting of the line are left out;
  the event carries the integers the line is computed from, and the ETA.
\<close>

definition eta_of :: "int \<Rightarrow> int \<Rightarrow> int \<Rightarrow> int" where
  "eta_of total_len completed speed = (if speed > 0 then (total_len - completed) div max speed 1 else 0)"

definition progress_update :: "string \<Rightarrow> int \<Rightarrow> int \<Rightarrow> int \<Rightarrow> int \<Rightarrow> world \<Rightarrow> int \<times> world" where
  "progress_update name completed total_len speed last_update w =
     (if clock w - last_update \<ge> 5000 \<and> total_len > 0 then
        (let eta = eta_of total_len completed speed
         in (clock w, print (Progress (take 40 name) completed total_len speed eta) w))
      else (last_update, w))"

text \<open>The loop under \<^verbatim>\<open># Check completion\<close>: the reported paths that are on the disk.\<close>

definition downloaded_paths :: "world \<Rightarrow> file_info list \<Rightarrow> string list" where
  "downloaded_paths w files =
     concat (map (\<lambda>f. case f_path f of
                         Some path \<Rightarrow> if path \<noteq> [] \<and> path_exists w path then [path] else []
                       | None \<Rightarrow> []) files)"

text \<open>
  \<^verbatim>\<open>monitor_download\<close>: the loop \<^verbatim>\<open>while time.time() - start_time < timeout\<close> with its
  two local variables \<^verbatim>\<open>start_time\<close> and \<^verbatim>\<open>last_update\<close>.
\<close>

function monitor_loop ::
  "env \<Rightarrow> string \<Rightarrow> string \<Rightarrow> int \<Rightarrow> int \<Rightarrow> int \<Rightarrow> world \<Rightarrow> string list \<times> world" where
  "monitor_loop e gid name timeout start_time last_update w =
     (if clock w - start_time < 1000 * timeout then
        (case aria2_call (rpc_status e) (TellStatus gid status_keys) w of
           (Some (Body (Some status)), w1) \<Rightarrow>
             (let state = (case st_status status of None \<Rightarrow> [] | Some s \<Rightarrow> s);
                  completed = (case st_completedLength status of None \<Rightarrow> 0 | Some n \<Rightarrow> n);
                  total_len = (case st_totalLength status of None \<Rightarrow> 0 | Some n \<Rightarrow> n);
                  speed = (case st_downloadSpeed status of None \<Rightarrow> 0 | Some n \<Rightarrow> n)
              in case progress_update name completed total_len speed last_update w1 of
                   (last_update', w2) \<Rightarrow>
                     if state = ''complete'' then
                       (let files = (case st_files status of None \<Rightarrow> [] | Some fs \<Rightarrow> fs)
                        in (downloaded_paths w2 files, print (DownloadCompleted name) w2))
                     else if state = ''error'' \<or> state = ''removed'' then
                       ([], print (DownloadFailed name) w2)
                     else monitor_loop e gid name timeout start_time last_update' (sleep 2 w2))
         | (_, w1) \<Rightarrow> monitor_loop e gid name timeout start_time last_update (sleep 2 w1))
      else ([], print (TimedOut name) w))"
  by pat_completeness auto
termination
proof -
  have mono: "clock w \<le> clock w1" if "(r, w1) = aria2_call ch req w"
    for ch :: "status_info channel" and req w r w1
    using that
    by (auto simp add: aria2_call_def aria2_attempts.simps post_def emit_def sleep_def print_def
        split: prod.splits option.splits if_splits)
  show ?thesis
  proof (relation "measure (\<lambda>(e, gid, name, timeout, start_time, last_update, w). nat (start_time + 1000 * timeout - clock w))", goal_cases)
    case 1
    show ?case by simp
  next
    case 2
    then show ?case by (auto simp add: sleep_def emit_def dest!: mono)
  next
    case 3
    then show ?case by (auto simp add: sleep_def emit_def dest!: mono)
  next
    case 4
    then show ?case
      by (auto simp add: sleep_def emit_def progress_update_def print_def Let_def
          split: if_splits dest!: mono)
  qed
qed

declare monitor_loop.simps [simp del]

text \<open>\<^verbatim>\<open>start_time = time.time()\<close> and \<^verbatim>\<open>last_update = start_time\<close>.\<close>

definition monitor_download :: "env \<Rightarrow> string \<Rightarrow> string \<Rightarrow> int \<Rightarrow> world \<Rightarrow> string list \<times> world" where
  "monitor_download e gid name timeout w =
     (let w0 = print (Monitoring name) w
      in monitor_loop e gid name timeout (clock w0) (clock w0) w0)"

section \<open>The post-processor\<close>

subsection \<open>Paths and strings\<close>

text \<open>
  Strings are byte strings, and \<^verbatim>\<open>str.lower\<close> is taken on ASCII letters.
  \<^verbatim>\<open>os.path.basename\<close> is what follows the last separator, and
  \<^verbatim>\<open>os.path.splitext(p)[0]\<close> cuts the last component at its last dot, unless only dots
  precede that dot.
\<close>

definition lower_char :: "char \<Rightarrow> char" where
  "lower_char c =
     (case map_of (zip ''ABCDEFGHIJKLMNOPQRSTUVWXYZ'' ''abcdefghijklmnopqrstuvwxyz'') c of
        Some l \<Rightarrow> l
      | None \<Rightarrow> c)"

definition lower :: "string \<Rightarrow> string" where
  "lower s = map lower_char s"

definition endswith :: "string \<Rightarrow> string \<Rightarrow> bool" where
  "endswith s suffix = (length suffix \<le> length s \<and> drop (length s - length suffix) s = suffix)"

definition startswith :: "string \<Rightarrow> string \<Rightarrow> bool" where
  "startswith s prefix = (take (length prefix) s = prefix)"

definition basename :: "string \<Rightarrow> string" where
  "basename p = rev (takeWhile (\<lambda>c. c \<noteq> CHR ''/'') (rev p))"

definition splitext_root :: "string \<Rightarrow> string" where
  "splitext_root p =
     (let name = basename p;
          ext = rev (takeWhile (\<lambda>c. c \<noteq> CHR ''.'') (rev name));
          stem = take (length name - length ext - 1) name
      in if CHR ''.'' \<in> set name \<and> (\<exists>c \<in> set stem. c \<noteq> CHR ''.'')
         then take (length p - length ext - 1) p else p)"

definition OUTPUT_DIR :: string where
  "OUTPUT_DIR = ''/workspace/completed''"

text \<open>
  \<^verbatim>\<open>shutil.move(src, dst)\<close> into an existing directory: the destination is the directory
  joined with the base name of the source; the call raises when something is already
  there, or when the source is missing; otherwise the file is renamed, so the source path
  is free afterwards. The sources here are paths of regular files, which do not end with a
  separator.
\<close>

datatype exn = DestinationExists | FileNotFound

definition shutil_move :: "string \<Rightarrow> string \<Rightarrow> world \<Rightarrow> exn option \<times> world" where
  "shutil_move src dst w =
     (let real_dst = dst @ ''/'' @ basename src in
      if path_exists w real_dst then (Some DestinationExists, w)
      else (case disk w src of
              None \<Rightarrow> (Some FileNotFound, w)
            | Some bytes \<Rightarrow>
                (None, emit (Moved src real_dst)
                         (w\<lparr>disk := (disk w)(src := None, real_dst \<mapsto> bytes)\<rparr>))))"

subsection \<open>Subtitle extraction\<close>

text \<open>
  \<^verbatim>\<open>subprocess.run(cmd, ...)\<close> on a command line whose last word is the output file.
\<close>

definition run :: "env \<Rightarrow> string list \<Rightarrow> string \<Rightarrow> world \<Rightarrow> tool_outcome \<times> world" where
  "run e cmd output_file w =
     (let outcome = ffmpeg e cmd;
          written = (case outcome of ToolRaises b \<Rightarrow> b | ToolExits rc b \<Rightarrow> b);
          w1 = emit (Ran cmd) w
      in (outcome, case written of
                     None \<Rightarrow> w1
                   | Some bytes \<Rightarrow> w1\<lparr>disk := (disk w1)(output_file \<mapsto> bytes)\<rparr>))"

definition languages :: "string list" where
  "languages = [''fre'', ''fra'', ''fr'', ''french'']"

definition language_cmd :: "string \<Rightarrow> string \<Rightarrow> string \<Rightarrow> string list" where
  "language_cmd video_path lang output_file =
     [''ffmpeg'', ''-y'', ''-i'', video_path, ''-map'', ''0:s:m:language:'' @ lang, output_file]"

definition fallback_cmd :: "string \<Rightarrow> string \<Rightarrow> string list" where
  "fallback_cmd video_path output_file =
     [''ffmpeg'', ''-y'', ''-i'', video_path, ''-map'', ''0:s:0'', output_file]"

text \<open>
  The loop \<^verbatim>\<open>for lang in languages\<close>: \<^verbatim>\<open>break\<close> ends it with the one extracted file;
  a run that raises, or whose result fails the test, goes on with the next language
  (\<^verbatim>\<open>os.path.getsize\<close> cannot raise here: it is reached only for a path that exists).
\<close>

fun try_languages :: "env \<Rightarrow> string \<Rightarrow> string \<Rightarrow> string list \<Rightarrow> world \<Rightarrow> string list \<times> world" where
  "try_languages e video_path base_name [] w = ([], w)"
| "try_languages e video_path base_name (lang # rest) w =
     (let output_file = base_name @ ''.'' @ lang @ ''.srt''
      in case run e (language_cmd video_path lang output_file) output_file w of
           (ToolExits returncode b, w1) \<Rightarrow>
             if returncode = 0 \<and> path_exists w1 output_file
                \<and> (case getsize w1 output_file of Some n \<Rightarrow> n > 100 | None \<Rightarrow> False)
             then ([output_file], print (ExtractedLanguage lang) w1)
             else try_languages e video_path base_name rest w1
         | (ToolRaises b, w1) \<Rightarrow> try_languages e video_path base_name rest w1)"

definition extract_fallback :: "env \<Rightarrow> string \<Rightarrow> string \<Rightarrow> world \<Rightarrow> string list \<times> world" where
  "extract_fallback e video_path base_name w =
     (let output_file = base_name @ ''.srt''
      in case run e (fallback_cmd video_path output_file) output_file w of
           (ToolExits returncode b, w1) \<Rightarrow>
             if returncode = 0 \<and> path_exists w1 output_file
             then ([output_file], print ExtractedFirstAvailable w1)
             else ([], w1)
         | (ToolRaises b, w1) \<Rightarrow> ([], print NoSubtitlesFound w1))"

definition extract_subtitles :: "env \<Rightarrow> string \<Rightarrow> world \<Rightarrow> string list \<times> world" where
  "extract_subtitles e video_path w =
     (if \<not> path_exists w video_path then ([], w)
      else
        (let w0 = print (ExtractingSubtitles (basename video_path)) w;
             base_name = splitext_root video_path
         in case try_languages e video_path base_name languages w0 of
              (extracted, w1) \<Rightarrow>
                if extracted = [] then extract_fallback e video_path base_name w1
                else (extracted, w1)))"

subsection \<open>Relocation\<close>

definition video_extensions :: "string list" where
  "video_extensions = [''.mkv'', ''.mp4'', ''.avi'', ''.mov'']"

definition is_video :: "string \<Rightarrow> bool" where
  "is_video file_path = list_ex (endswith (lower file_path)) video_extensions"

text \<open>
  An exception raised by \<^verbatim>\<open>shutil.move\<close> leaves \<^verbatim>\<open>process_downloaded_files\<close> at
  once; the world it leaves behind is returned with it.
\<close>

fun move_subtitles :: "string list \<Rightarrow> world \<Rightarrow> exn option \<times> world" where
  "move_subtitles [] w = (None, w)"
| "move_subtitles (sub # rest) w =
     (if path_exists w sub then
        (case shutil_move sub OUTPUT_DIR w of
           (Some x, w1) \<Rightarrow> (Some x, w1)
         | (None, w1) \<Rightarrow> move_subtitles rest w1)
      else move_subtitles rest w)"

text \<open>The body of the loop \<^verbatim>\<open>for file_path in files\<close>.\<close>

definition process_file :: "env \<Rightarrow> string \<Rightarrow> world \<Rightarrow> exn option \<times> world" where
  "process_file e file_path w =
     (if \<not> path_exists w file_path then (None, w)
      else
        (case getsize w file_path of
           None \<Rightarrow> (Some FileNotFound, w)
         | Some file_size \<Rightarrow>
             (let w0 = print (ProcessingFile (basename file_path) file_size) w in
              if is_video file_path then
                (case extract_subtitles e file_path w0 of
                   (subtitles, w1) \<Rightarrow>
                     (case move_subtitles subtitles w1 of
                        (Some x, w2) \<Rightarrow> (Some x, w2)
                      | (None, w2) \<Rightarrow> shutil_move file_path OUTPUT_DIR w2))
              else shutil_move file_path OUTPUT_DIR w0)))"

fun process_files :: "env \<Rightarrow> string list \<Rightarrow> world \<Rightarrow> exn option \<times> world" where
  "process_files e [] w = (None, w)"
| "process_files e (file_path # rest) w =
     (case process_file e file_path w of
        (Some x, w1) \<Rightarrow> (Some x, w1)
      | (None, w1) \<Rightarrow> process_files e rest w1)"

definition process_downloaded_files ::
  "env \<Rightarrow> string list \<Rightarrow> string \<Rightarrow> world \<Rightarrow> exn option \<times> world" where
  "process_downloaded_files e files name w =
     (case process_files e files (print (ProcessingFiles (length files) name) w) of
        (Some x, w1) \<Rightarrow> (Some x, w1)
      | (None, w1) \<Rightarrow> (None, print (CompletedProcessing name) w1))"

section \<open>Submitting a job and downloading an item\<close>

text \<open>
  \<^verbatim>\<open>add_magnet_link\<close> and \<^verbatim>\<open>add_torrent_file\<close> return the job handle of the answer,
  or \<^verbatim>\<open>None\<close>. \<^verbatim>\<open>selected_files\<close> is only tested for being empty, so the default
  \<^verbatim>\<open>None\<close> is the empty list here. Opening a descriptor that is not on the disk raises,
  which \<^verbatim>\<open>add_torrent_file\<close> catches itself.
\<close>

definition add_magnet_link :: "env \<Rightarrow> string \<Rightarrow> world \<Rightarrow> string option \<times> world" where
  "add_magnet_link e magnet_uri w =
     (case aria2_call (rpc_command e) (AddUri magnet_uri) w of
        (Some b, w1) \<Rightarrow> (result b, w1)
      | (None, w1) \<Rightarrow> (None, w1))"

definition add_torrent_file :: "env \<Rightarrow> string \<Rightarrow> int list \<Rightarrow> world \<Rightarrow> string option \<times> world" where
  "add_torrent_file e torrent_path selected_files w =
     (case (if torrent_path = [] then None else disk w torrent_path) of
        None \<Rightarrow> (None, print AddTorrentFailed w)
      | Some torrent_data \<Rightarrow>
          (case aria2_call (rpc_command e) (AddTorrent torrent_data (selected_files \<noteq> [])) w of
             (r, w1) \<Rightarrow>
               (let gid = (case r of Some b \<Rightarrow> result b | None \<Rightarrow> None) in
                case gid of
                  Some g \<Rightarrow>
                    if g \<noteq> [] \<and> selected_files \<noteq> []
                    then (gid, apply_file_selection e g selected_files w1)
                    else (gid, w1)
                | None \<Rightarrow> (gid, w1))))"

text \<open>
  \<^verbatim>\<open>download_item\<close>. \<^verbatim>\<open>os.path.isfile\<close> is \<^const>\<open>path_exists\<close>, the disk holding
  regular files only. The \<^verbatim>\<open>except\<close> clause is reached from \<^verbatim>\<open>process_downloaded_files\<close>
  alone: nothing else in the \<^verbatim>\<open>try\<close> block raises.
\<close>

definition submit :: "env \<Rightarrow> string \<Rightarrow> int list \<Rightarrow> world \<Rightarrow> (string option \<times> world) option" where
  "submit e item selected_files w =
     (if path_exists w item \<and> endswith (lower item) ''.torrent''
      then Some (add_torrent_file e item selected_files w)
      else if startswith item ''magnet:''
      then Some (add_magnet_link e item w)
      else None)"

definition download_item :: "env \<Rightarrow> string \<Rightarrow> int list \<Rightarrow> world \<Rightarrow> bool \<times> world" where
  "download_item e item selected_files w =
     (let name = take 50 (if path_exists w item then basename item else item);
          w0 = print (StartingDownload name) w
      in case submit e item selected_files w0 of
           None \<Rightarrow> (False, print (UnsupportedItem item) w0)
         | Some (gid, w1) \<Rightarrow>
             (case gid of
                None \<Rightarrow> (False, w1)
              | Some g \<Rightarrow>
                  if g = [] then (False, w1)
                  else
                    (case monitor_download e g name 600 w1 of
                       (downloaded_files, w2) \<Rightarrow>
                         if downloaded_files \<noteq> [] then
                           (case process_downloaded_files e downloaded_files name w2 of
                              (None, w3) \<Rightarrow> (True, w3)
                            | (Some x, w3) \<Rightarrow> (False, print DownloadException w3))
                         else (False, w2))))"

section \<open>Observing a run\<close>

text \<open>
  What a call did is what it added to the trace. \<open>requests\<close> are the requests posted,
  in order, one per HTTP attempt (so a retried call shows its request again);
  \<open>commands_run\<close> are the command lines of the media tool.
\<close>

definition since :: "world \<Rightarrow> world \<Rightarrow> event list" where
  "since w w' = drop (length (trace w)) (trace w')"

fun requests :: "event list \<Rightarrow> request list" where
  "requests [] = []"
| "requests (Posted r t # evs) = r # requests evs"
| "requests (ev # evs) = requests evs"

fun commands_run :: "event list \<Rightarrow> string list list" where
  "commands_run [] = []"
| "commands_run (Ran cmd # evs) = cmd # commands_run evs"
| "commands_run (ev # evs) = commands_run evs"

text \<open>
  The selection a sequence of effects asks the engine for, job \<open>gid\<close>, starting from the
  marks \<open>m\<close>: every \<^verbatim>\<open>aria2.selectFile\<close> request for the job sets the mark of its index.
\<close>

fun mark :: "string \<Rightarrow> (nat \<Rightarrow> bool) \<Rightarrow> event \<Rightarrow> (nat \<Rightarrow> bool)" where
  "mark gid m (Posted (SelectFile g i b) t) = (if g = gid then m(i := b) else m)"
| "mark gid m ev = m"

definition marks :: "string \<Rightarrow> (nat \<Rightarrow> bool) \<Rightarrow> event list \<Rightarrow> (nat \<Rightarrow> bool)" where
  "marks gid m evs = foldl (mark gid) m evs"

text \<open>
  The schedule of the attempts of one call, as the specification words it: the first
  attempt is posted when the call starts, and each further one a backoff of one second
  after the attempt before it has failed.
\<close>

fun attempt_time :: "'a channel \<Rightarrow> request \<Rightarrow> int \<Rightarrow> nat \<Rightarrow> int" where
  "attempt_time ch req t0 0 = t0"
| "attempt_time ch req t0 (Suc k) =
     (let t = attempt_time ch req t0 k in t + int (fst (ch req t)) + 1000)"

text \<open>A status is terminal when it is one of the three values that end the monitor.\<close>

definition terminal :: "status_info \<Rightarrow> bool" where
  "terminal status =
     (st_status status = Some ''complete'' \<or> st_status status = Some ''error''
      \<or> st_status status = Some ''removed'')"

text \<open>The paths a status reports, and the fields of a status with their defaults.\<close>

definition reported_paths :: "status_info \<Rightarrow> string list" where
  "reported_paths status =
     List.map_filter f_path (case st_files status of None \<Rightarrow> [] | Some fs \<Rightarrow> fs)"

definition state_of :: "status_info \<Rightarrow> string" where
  "state_of status = (case st_status status of None \<Rightarrow> [] | Some s \<Rightarrow> s)"

definition completed_of :: "status_info \<Rightarrow> int" where
  "completed_of status = (case st_completedLength status of None \<Rightarrow> 0 | Some n \<Rightarrow> n)"

definition total_of :: "status_info \<Rightarrow> int" where
  "total_of status = (case st_totalLength status of None \<Rightarrow> 0 | Some n \<Rightarrow> n)"

definition speed_of :: "status_info \<Rightarrow> int" where
  "speed_of status = (case st_downloadSpeed status of None \<Rightarrow> 0 | Some n \<Rightarrow> n)"

text \<open>
  The terminal transitions a sequence of effects shows: the three lines with which
  \<^verbatim>\<open>monitor_download\<close> leaves its loop.
\<close>

fun verdicts :: "event list \<Rightarrow> message list" where
  "verdicts [] = []"
| "verdicts (Printed (DownloadCompleted n) # evs) = DownloadCompleted n # verdicts evs"
| "verdicts (Printed (DownloadFailed n) # evs) = DownloadFailed n # verdicts evs"
| "verdicts (Printed (TimedOut n) # evs) = TimedOut n # verdicts evs"
| "verdicts (ev # evs) = verdicts evs"

text \<open>What one call of \<^const>\<open>aria2_call\<close> may add to the trace.\<close>

definition call_events :: "request \<Rightarrow> event list \<Rightarrow> bool" where
  "call_events req evs =
     (requests evs \<in> {[req], [req, req], [req, req, req]} \<and> commands_run evs = []
      \<and> (\<forall>ev \<in> set evs. (\<exists>t. ev = Posted req t) \<or> ev = Slept 1 \<or> ev = Printed RpcCallFailed))"

text \<open>
  The file list an answer to the metadata poll carries, the request of that poll, and the
  selection request \<^verbatim>\<open>apply_file_selection\<close> is to post for index \<open>i\<close>.
\<close>

definition files_of :: "status_info body option \<Rightarrow> file_info list" where
  "files_of res =
     (case res of
        Some (Body (Some status)) \<Rightarrow> (case st_files status of None \<Rightarrow> [] | Some fs \<Rightarrow> fs)
      | _ \<Rightarrow> [])"

definition poll_request :: "string \<Rightarrow> request" where
  "poll_request gid = TellStatus gid [''files'']"

definition wanted :: "string \<Rightarrow> int list \<Rightarrow> nat \<Rightarrow> request" where
  "wanted gid selected_files i = SelectFile gid i (int i \<in> set selected_files)"

text \<open>
  Subtitle extraction, observed. For a language tag: the output file and the command
  line; what a run of the tool leaves in its output file, given what was there before;
  and the test the source applies after the run of a tag (exit code 0, the output file
  there, more than 100 bytes) and after the fallback run (exit code 0, the output file
  there), both read on the disk as it was before the extraction started.
\<close>

definition tag_output :: "string \<Rightarrow> string \<Rightarrow> string" where
  "tag_output base_name lang = base_name @ ''.'' @ lang @ ''.srt''"

definition tag_cmd :: "string \<Rightarrow> string \<Rightarrow> string \<Rightarrow> string list" where
  "tag_cmd video_path base_name lang = language_cmd video_path lang (tag_output base_name lang)"

definition written :: "tool_outcome \<Rightarrow> string option" where
  "written outcome = (case outcome of ToolRaises b \<Rightarrow> b | ToolExits rc b \<Rightarrow> b)"

definition content_after :: "tool_outcome \<Rightarrow> string option \<Rightarrow> string option" where
  "content_after outcome old = (case written outcome of Some bytes \<Rightarrow> Some bytes | None \<Rightarrow> old)"

definition exits_zero :: "tool_outcome \<Rightarrow> bool" where
  "exits_zero outcome = (case outcome of ToolExits rc b \<Rightarrow> rc = 0 | ToolRaises b \<Rightarrow> False)"

definition tag_success :: "env \<Rightarrow> world \<Rightarrow> string \<Rightarrow> string \<Rightarrow> string \<Rightarrow> bool" where
  "tag_success e w video_path base_name lang =
     (let outcome = ffmpeg e (tag_cmd video_path base_name lang)
      in exits_zero outcome
         \<and> (case content_after outcome (disk w (tag_output base_name lang)) of
               Some bytes \<Rightarrow> length bytes > 100
             | None \<Rightarrow> False))"

definition fallback_success :: "env \<Rightarrow> world \<Rightarrow> string \<Rightarrow> string \<Rightarrow> bool" where
  "fallback_success e w video_path base_name =
     (let outcome = ffmpeg e (fallback_cmd video_path (base_name @ ''.srt''))
      in exits_zero outcome \<and> content_after outcome (disk w (base_name @ ''.srt'')) \<noteq> None)"

text \<open>
  The ETA as the specification words it: the remaining bytes divided by \<open>max(rate, 1)\<close>.
\<close>

definition eta_spec :: "int \<Rightarrow> int \<Rightarrow> int \<Rightarrow> int" where
  "eta_spec total_len completed speed = (total_len - completed) div max speed 1"

text \<open>
  An attempt is quiet when it shows no terminal status: it fails, or its answer has no
  status, or the status it carries is not terminal.
\<close>

definition quiet :: "nat \<times> status_info body option \<Rightarrow> bool" where
  "quiet a = (case snd a of Some (Body (Some status)) \<Rightarrow> \<not> terminal status | _ \<Rightarrow> True)"

text \<open>
  The instants at which a call of the control channel is started: the attempts that do
  not follow the one-second pause of \<^verbatim>\<open>aria2_call\<close>, which are its retries. The monitor
  itself pauses for two seconds, so that each of its polls starts one call.
\<close>

fun starts_from :: "bool \<Rightarrow> event list \<Rightarrow> int list" where
  "starts_from retry [] = []"
| "starts_from retry (ev # evs) =
     (case ev of Posted r t \<Rightarrow> (if retry then [] else [t]) | _ \<Rightarrow> [])
     @ starts_from (ev = Slept 1) evs"

definition call_starts :: "event list \<Rightarrow> int list" where
  "call_starts evs = starts_from False evs"

section \<open>Concrete worlds\<close>

text \<open>
  Small worlds on which the theorems below are evaluated: a job reporting two files of
  which one is on the disk, a tool that extracts nothing, and channels that fail or answer
  according to the instant of the request.
\<close>

definition demo_status :: "string \<Rightarrow> int \<Rightarrow> status_info" where
  "demo_status s speed =
     \<lparr>st_status = Some s, st_completedLength = Some 400, st_totalLength = Some 1000,
      st_downloadSpeed = Some speed,
      st_files = Some [\<lparr>f_path = Some ''/d/a.mkv''\<rparr>, \<lparr>f_path = Some ''/d/b.txt''\<rparr>]\<rparr>"

definition demo_world :: world where
  "demo_world = \<lparr>clock = 0, disk = [''/d/a.mkv'' \<mapsto> ''video''], trace = []\<rparr>"

definition idle_tool :: "string list \<Rightarrow> tool_outcome" where
  "idle_tool cmd = ToolExits 1 None"

text \<open>A channel that is down for the first two seconds and answers \<^verbatim>\<open>OK\<close> afterwards.\<close>

definition flaky :: "string channel" where
  "flaky req t = (if t < 2000 then (300, None) else (100, Some (Body (Some ''OK''))))"

definition down :: "'a channel" where
  "down req t = (0, None)"

text \<open>A command channel that accepts everything and names the job \<^verbatim>\<open>g\<close>.\<close>

definition accepting :: "string channel" where
  "accepting req t = (0, Some (Body (Some ''g'')))"

text \<open>An engine that answers every status query at once with the given state.\<close>

definition steady_env :: "string \<Rightarrow> env" where
  "steady_env s =
     \<lparr>rpc_status = (\<lambda>req t. (0, Some (Body (Some (demo_status s 0))))),
      rpc_command = accepting, ffmpeg = idle_tool\<rparr>"

text \<open>
  An engine whose first answer takes five seconds: the job is active, at rate 0, until
  the seventh second, and complete from then on.
\<close>

definition stalled_env :: env where
  "stalled_env =
     \<lparr>rpc_status = (\<lambda>req t. if t < 7000 then (5000, Some (Body (Some (demo_status ''active'' 0))))
                             else (0, Some (Body (Some (demo_status ''complete'' 0))))),
      rpc_command = down, ffmpeg = idle_tool\<rparr>"

text \<open>
  An engine that reports the job active, each answer taking 14 seconds, for the first
  592 seconds; then the channel is down until the 600th second; from the 600th second on
  the engine reports the job complete.
\<close>

definition late_env :: env where
  "late_env =
     \<lparr>rpc_status = (\<lambda>req t. if t < 592000 then (14000, Some (Body (Some (demo_status ''active'' 0))))
                             else if t < 600000 then (14000, None)
                             else (0, Some (Body (Some (demo_status ''complete'' 0))))),
      rpc_command = down, ffmpeg = idle_tool\<rparr>"

text \<open>
  An engine whose answers take one second: the job is active until the sixth second and
  complete from then on.
\<close>

definition slow_env :: env where
  "slow_env =
     \<lparr>rpc_status = (\<lambda>req t. if t < 6000 then (1000, Some (Body (Some (demo_status ''active'' 0))))
                             else (0, Some (Body (Some (demo_status ''complete'' 0))))),
      rpc_command = down, ffmpeg = idle_tool\<rparr>"

text \<open>
  An engine holding a job of three files, whose metadata are there at the first poll, and
  which accepts every command; and a world in which nothing answers.
\<close>

definition three_files :: status_info where
  "three_files =
     \<lparr>st_status = Some ''paused'', st_completedLength = Some 0, st_totalLength = Some 600,
      st_downloadSpeed = Some 0,
      st_files = Some [\<lparr>f_path = Some ''/d/0''\<rparr>, \<lparr>f_path = Some ''/d/1''\<rparr>,
                       \<lparr>f_path = Some ''/d/2''\<rparr>]\<rparr>"

definition select_env :: env where
  "select_env =
     \<lparr>rpc_status = (\<lambda>req t. (0, Some (Body (Some three_files)))),
      rpc_command = (\<lambda>req t. (0, Some (Body (Some ''OK'')))), ffmpeg = idle_tool\<rparr>"

definition down_env :: env where
  "down_env = \<lparr>rpc_status = down, rpc_command = down, ffmpeg = idle_tool\<rparr>"

text \<open>
  A tool that extracts the subtitles tagged \<^verbatim>\<open>fr\<close> of the video \<^verbatim>\<open>/d/a.mkv\<close> (101 bytes)
  and nothing else; and a tool that fails on every command line, leaving 200 bytes in the
  output file of the tag \<^verbatim>\<open>fre\<close>.
\<close>

definition fr_env :: env where
  "fr_env =
     \<lparr>rpc_status = down, rpc_command = down,
      ffmpeg = (\<lambda>cmd. if cmd = language_cmd ''/d/a.mkv'' ''fr'' ''/d/a.fr.srt''
                      then ToolExits 0 (Some (replicate 101 CHR ''x''))
                      else ToolExits 1 None)\<rparr>"

definition partial_env :: env where
  "partial_env =
     \<lparr>rpc_status = down, rpc_command = down,
      ffmpeg = (\<lambda>cmd. if cmd = language_cmd ''/d/a.mkv'' ''fre'' ''/d/a.fre.srt''
                      then ToolExits 1 (Some (replicate 200 CHR ''x''))
                      else ToolExits 1 None)\<rparr>"

text \<open>A world with an empty disk.\<close>

definition bare_world :: world where
  "bare_world = \<lparr>clock = 0, disk = Map.empty, trace = []\<rparr>"


section \<open>Facts about the control channel\<close>

lemma post_eq:
  "post ch req w = (snd (ch req (clock w)),
     w\<lparr>clock := clock w + int (fst (ch req (clock w))), trace := trace w @ [Posted req (clock w)]\<rparr>)"
  by (simp add: post_def emit_def split: prod.splits)

text \<open>The three attempts of a call, written out.\<close>

lemma aria2_call_unfold:
  "aria2_call ch req w =
    (let t0 = clock w; o0 = ch req t0 in
     case snd o0 of Some b \<Rightarrow> (Some b, w\<lparr>clock := t0 + int (fst o0), trace := trace w @ [Posted req t0]\<rparr>)
     | None \<Rightarrow>
       (let t1 = t0 + int (fst o0) + 1000; o1 = ch req t1 in
        case snd o1 of Some b \<Rightarrow> (Some b, w\<lparr>clock := t1 + int (fst o1), trace := trace w @ [Posted req t0, Slept 1, Posted req t1]\<rparr>)
        | None \<Rightarrow>
          (let t2 = t1 + int (fst o1) + 1000; o2 = ch req t2 in
           case snd o2 of Some b \<Rightarrow> (Some b, w\<lparr>clock := t2 + int (fst o2), trace := trace w @ [Posted req t0, Slept 1, Posted req t1, Slept 1, Posted req t2]\<rparr>)
           | None \<Rightarrow> (None, w\<lparr>clock := t2 + int (fst o2), trace := trace w @ [Posted req t0, Slept 1, Posted req t1, Slept 1, Posted req t2, Printed RpcCallFailed]\<rparr>))))"
  by (simp add: aria2_call_def aria2_attempts.simps post_eq sleep_def emit_def print_def Let_def
      split: option.splits)

lemma aria2_call_clock:
  "aria2_call ch req w = (r, w1) \<Longrightarrow> clock w \<le> clock w1"
  by (auto simp add: aria2_call_unfold Let_def split: option.splits)

lemma since_append: "trace w' = trace w @ evs \<Longrightarrow> since w w' = evs"
  by (simp add: since_def)

lemma since_self [simp]: "since w w = []"
  by (simp add: since_def)

lemma since_trans:
  "trace w1 = trace w @ a \<Longrightarrow> trace w2 = trace w1 @ b \<Longrightarrow> since w w2 = a @ b"
  by (simp add: since_def)

lemma requests_append [simp]: "requests (xs @ ys) = requests xs @ requests ys"
  by (induction xs rule: requests.induct) auto

lemma commands_run_append [simp]: "commands_run (xs @ ys) = commands_run xs @ commands_run ys"
  by (induction xs rule: commands_run.induct) auto

lemma verdicts_append [simp]: "verdicts (xs @ ys) = verdicts xs @ verdicts ys"
  by (induction xs rule: verdicts.induct) auto

lemma marks_append [simp]: "marks gid m (xs @ ys) = marks gid (marks gid m xs) ys"
  by (simp add: marks_def)

lemma aria2_call_events:
  assumes "aria2_call ch req w = (r, w1)"
  shows "\<exists>evs. trace w1 = trace w @ evs \<and> call_events req evs" and "disk w1 = disk w"
  using assms
  by (auto simp add: aria2_call_unfold Let_def call_events_def split: option.splits)

lemma aria2_call_answer:
  assumes "aria2_call ch req w = (Some b, w1)"
  shows "\<exists>t. Posted req t \<in> set (since w w1) \<and> snd (ch req t) = Some b"
  using assms
  by (auto simp add: aria2_call_unfold Let_def since_def split: option.splits)

lemma call_events_verdicts: "call_events req evs \<Longrightarrow> verdicts evs = []"
proof -
  assume "call_events req evs"
  then have "\<forall>ev \<in> set evs. (\<exists>r t. ev = Posted r t) \<or> ev = Slept 1 \<or> ev = Printed RpcCallFailed"
    by (auto simp add: call_events_def)
  then show ?thesis by (induction evs rule: verdicts.induct) auto
qed

lemma starts_from_append:
  "starts_from b (xs @ ys)
     = starts_from b xs @ starts_from (if xs = [] then b else last xs = Slept 1) ys"
  by (induction xs arbitrary: b) simp_all

lemma aria2_call_starts:
  assumes "aria2_call ch req w = (r, w1)"
  shows "\<exists>evs. trace w1 = trace w @ evs \<and> evs \<noteq> [] \<and> last evs \<noteq> Slept 1
           \<and> starts_from False evs = [clock w]"
  using assms
  by (auto simp add: aria2_call_unfold Let_def split: option.splits)

lemma aria2_call_duration:
  assumes "\<forall>t. fst (ch req t) \<le> L" and "aria2_call ch req w = (r, w1)"
  shows "clock w1 \<le> clock w + 3 * int L + 2000"
proof -
  have b: "int (fst (ch req t)) \<le> int L" for t using assms(1) by simp
  note b0 = b [of "clock w"]
  note b1 = b [of "clock w + int (fst (ch req (clock w))) + 1000"]
  note b2 = b [of "clock w + int (fst (ch req (clock w))) + 1000
      + int (fst (ch req (clock w + int (fst (ch req (clock w))) + 1000))) + 1000"]
  show ?thesis
    using assms(2) b0 b1 b2
    by (auto simp add: aria2_call_unfold Let_def split: option.splits)
qed

section \<open>Steps of the monitor\<close>

lemma monitor_loop_deadline:
  "\<not> clock w - start_time < 1000 * timeout \<Longrightarrow>
   monitor_loop e gid name timeout start_time last_update w = ([], print (TimedOut name) w)"
  by (subst monitor_loop.simps) simp

lemma monitor_loop_no_status:
  assumes "clock w - start_time < 1000 * timeout"
    and "aria2_call (rpc_status e) (TellStatus gid status_keys) w = (res, w1)"
    and "\<And>status. res \<noteq> Some (Body (Some status))"
  shows "monitor_loop e gid name timeout start_time last_update w
         = monitor_loop e gid name timeout start_time last_update (sleep 2 w1)"
  using assms
  by (subst monitor_loop.simps) (auto split: option.splits body.splits)

lemma monitor_loop_status:
  assumes "clock w - start_time < 1000 * timeout"
    and "aria2_call (rpc_status e) (TellStatus gid status_keys) w = (Some (Body (Some status)), w1)"
    and "progress_update name (completed_of status) (total_of status) (speed_of status) last_update w1
         = (last_update', w2)"
  shows "monitor_loop e gid name timeout start_time last_update w
         = (if state_of status = ''complete''
            then (downloaded_paths w2 (case st_files status of None \<Rightarrow> [] | Some fs \<Rightarrow> fs),
                  print (DownloadCompleted name) w2)
            else if state_of status = ''error'' \<or> state_of status = ''removed''
            then ([], print (DownloadFailed name) w2)
            else monitor_loop e gid name timeout start_time last_update' (sleep 2 w2))"
  using assms
  by (subst monitor_loop.simps)
     (simp add: state_of_def completed_of_def total_of_def speed_of_def Let_def)

lemma downloaded_paths_filter:
  "downloaded_paths w files = filter (path_exists w) (List.map_filter f_path files)"
  by (induction files)
     (auto simp add: downloaded_paths_def List.map_filter_simps path_exists_def split: option.splits)

lemma progress_update_events:
  assumes "progress_update name c t s last_update w1 = (last_update', w2)"
  shows "disk w2 = disk w1" and "clock w2 = clock w1"
    and "trace w2 = trace w1
         \<or> (t > 0 \<and> trace w2 = trace w1 @ [Printed (Progress (take 40 name) c t s (eta_of t c s))])"
  using assms
  by (auto simp add: progress_update_def print_def emit_def Let_def split: if_splits)

lemma state_terminal:
  "terminal status \<longleftrightarrow>
     state_of status = ''complete'' \<or> state_of status = ''error'' \<or> state_of status = ''removed''"
  by (auto simp add: terminal_def state_of_def split: option.splits)

lemma since_mono:
  assumes "trace w1 = trace w @ a" and "trace w2 = trace w1 @ b"
  shows "set (since w1 w2) \<subseteq> set (since w w2)" and "set (since w w1) \<subseteq> set (since w w2)"
  using assms by (auto simp add: since_def)

text \<open>The monitor only ever adds to the trace.\<close>

lemma monitor_loop_trace:
  "monitor_loop e gid name timeout start_time last_update w = (r, w') \<Longrightarrow>
   \<exists>evs. trace w' = trace w @ evs"
proof (induction "nat (start_time + 1000 * timeout - clock w)" arbitrary: w last_update
    rule: less_induct)
  case less
  show ?case
  proof (cases "clock w - start_time < 1000 * timeout")
    case False
    with less.prems show ?thesis
      by (auto simp add: monitor_loop_deadline print_def emit_def)
  next
    case True
    obtain res w1 where call: "aria2_call (rpc_status e) (TellStatus gid status_keys) w = (res, w1)"
      by (cases "aria2_call (rpc_status e) (TellStatus gid status_keys) w")
    obtain evs where evs: "trace w1 = trace w @ evs"
      using aria2_call_events(1) [OF call] by blast
    have c1: "clock w \<le> clock w1" using call by (rule aria2_call_clock)
    show ?thesis
    proof (cases "\<exists>status. res = Some (Body (Some status))")
      case False
      then have eq: "monitor_loop e gid name timeout start_time last_update w
          = monitor_loop e gid name timeout start_time last_update (sleep 2 w1)"
        using monitor_loop_no_status [OF True call] by blast
      have m: "nat (start_time + 1000 * timeout - clock (sleep 2 w1))
          < nat (start_time + 1000 * timeout - clock w)"
        using True c1 by (simp add: sleep_def emit_def)
      from less.hyps [OF m] less.prems eq
      obtain evs' where "trace w' = trace (sleep 2 w1) @ evs'" by auto
      then show ?thesis by (simp add: sleep_def emit_def evs)
    next
      case ex: True
      then obtain status where res: "res = Some (Body (Some status))" by blast
      obtain last_update' w2 where
        p: "progress_update name (completed_of status) (total_of status) (speed_of status) last_update w1
            = (last_update', w2)"
        by (cases "progress_update name (completed_of status) (total_of status) (speed_of status) last_update w1")
      obtain evs2 where evs2: "trace w2 = trace w1 @ evs2"
        using progress_update_events(3) [OF p] by auto
      have c2: "clock w2 = clock w1" using progress_update_events(2) [OF p] .
      note step = monitor_loop_status [OF True call [unfolded res] p]
      show ?thesis
      proof (cases "terminal status")
        case True
        with step less.prems show ?thesis
          by (auto simp add: state_terminal print_def emit_def evs evs2 split: if_splits)
      next
        case False
        then have eq: "monitor_loop e gid name timeout start_time last_update w
            = monitor_loop e gid name timeout start_time last_update' (sleep 2 w2)"
          using step by (simp add: state_terminal)
        have m: "nat (start_time + 1000 * timeout - clock (sleep 2 w2))
            < nat (start_time + 1000 * timeout - clock w)"
          using \<open>clock w - start_time < 1000 * timeout\<close> c1 c2 by (simp add: sleep_def emit_def)
        from less.hyps [OF m] less.prems eq
        obtain evs' where "trace w' = trace (sleep 2 w2) @ evs'" by auto
        then show ?thesis by (simp add: sleep_def emit_def evs evs2)
      qed
    qed
  qed
qed

text \<open>
  A run of the loop in which no attempt shows a terminal status ends by the deadline.
\<close>

lemma monitor_loop_timeout:
  assumes "monitor_loop e gid name timeout start_time last_update w = (artifacts, w')"
    and "\<forall>t. Posted (TellStatus gid status_keys) t \<in> set (since w w')
           \<longrightarrow> quiet (rpc_status e (TellStatus gid status_keys) t)"
  shows "artifacts = [] \<and> 1000 * timeout \<le> clock w' - start_time
       \<and> verdicts (since w w') = [TimedOut name]"
  using assms
proof (induction "nat (start_time + 1000 * timeout - clock w)" arbitrary: w last_update
    rule: less_induct)
  case less
  let ?req = "TellStatus gid status_keys"
  show ?case
  proof (cases "clock w - start_time < 1000 * timeout")
    case False
    with less.prems(1) show ?thesis
      by (auto simp add: monitor_loop_deadline print_def emit_def since_def)
  next
    case True
    obtain res w1 where call: "aria2_call (rpc_status e) ?req w = (res, w1)"
      by (cases "aria2_call (rpc_status e) ?req w")
    obtain evs where evs: "trace w1 = trace w @ evs" "call_events ?req evs"
      using aria2_call_events(1) [OF call] by blast
    have v: "verdicts evs = []" using evs(2) by (rule call_events_verdicts)
    have c1: "clock w \<le> clock w1" using call by (rule aria2_call_clock)
    show ?thesis
    proof (cases "\<exists>status. res = Some (Body (Some status))")
      case False
      then have eq: "monitor_loop e gid name timeout start_time last_update w
          = monitor_loop e gid name timeout start_time last_update (sleep 2 w1)"
        using monitor_loop_no_status [OF True call] by blast
      have m: "nat (start_time + 1000 * timeout - clock (sleep 2 w1))
          < nat (start_time + 1000 * timeout - clock w)"
        using True c1 by (simp add: sleep_def emit_def)
      have run: "monitor_loop e gid name timeout start_time last_update (sleep 2 w1) = (artifacts, w')"
        using less.prems(1) eq by simp
      obtain evs' where evs': "trace w' = trace (sleep 2 w1) @ evs'"
        using monitor_loop_trace [OF run] by blast
      have tn: "trace (sleep 2 w1) = trace w @ (evs @ [Slept 2])"
        by (simp add: sleep_def emit_def evs(1))
      have sub: "set (since (sleep 2 w1) w') \<subseteq> set (since w w')"
        using since_mono(1) [OF tn evs'] .
      have q: "\<forall>t. Posted ?req t \<in> set (since (sleep 2 w1) w') \<longrightarrow> quiet (rpc_status e ?req t)"
        using less.prems(2) sub by blast
      from less.hyps [OF m run q]
      have ih: "artifacts = []" "1000 * timeout \<le> clock w' - start_time"
        "verdicts (since (sleep 2 w1) w') = [TimedOut name]"
        by simp_all
      have "since w w' = (evs @ [Slept 2]) @ evs'" using since_trans [OF tn evs'] .
      moreover have "since (sleep 2 w1) w' = evs'" using since_append [OF evs'] .
      ultimately show ?thesis using ih v by simp
    next
      case ex: True
      then obtain status where res: "res = Some (Body (Some status))" by blast
      obtain t where t: "Posted ?req t \<in> set (since w w1)"
        "snd (rpc_status e ?req t) = Some (Body (Some status))"
        using aria2_call_answer [OF call [unfolded res]] by blast
      obtain last_update' w2 where
        p: "progress_update name (completed_of status) (total_of status) (speed_of status) last_update w1
            = (last_update', w2)"
        by (cases "progress_update name (completed_of status) (total_of status) (speed_of status) last_update w1")
      obtain evs2 where evs2: "trace w2 = trace w1 @ evs2" "verdicts evs2 = []"
        using progress_update_events(3) [OF p] by auto
      have c2: "clock w2 = clock w1" using progress_update_events(2) [OF p] .
      note step = monitor_loop_status [OF True call [unfolded res] p]
      have nt: "\<not> terminal status"
      proof
        assume tm: "terminal status"
        have "\<exists>b. trace w' = trace w1 @ b"
          using step less.prems(1) tm
          by (auto simp add: state_terminal print_def emit_def evs2 split: if_splits)
        then obtain b where b: "trace w' = trace w1 @ b" by blast
        have "Posted ?req t \<in> set (since w w')"
          using since_mono(2) [OF evs(1) b] t(1) by blast
        then have "quiet (rpc_status e ?req t)" using less.prems(2) by blast
        then show False using t(2) tm by (simp add: quiet_def)
      qed
      then have eq: "monitor_loop e gid name timeout start_time last_update w
          = monitor_loop e gid name timeout start_time last_update' (sleep 2 w2)"
        using step by (simp add: state_terminal)
      have m: "nat (start_time + 1000 * timeout - clock (sleep 2 w2))
          < nat (start_time + 1000 * timeout - clock w)"
        using True c1 c2 by (simp add: sleep_def emit_def)
      have run: "monitor_loop e gid name timeout start_time last_update' (sleep 2 w2) = (artifacts, w')"
        using less.prems(1) eq by simp
      obtain evs' where evs': "trace w' = trace (sleep 2 w2) @ evs'"
        using monitor_loop_trace [OF run] by blast
      have tn: "trace (sleep 2 w2) = trace w @ (evs @ evs2 @ [Slept 2])"
        by (simp add: sleep_def emit_def evs(1) evs2(1))
      have sub: "set (since (sleep 2 w2) w') \<subseteq> set (since w w')"
        using since_mono(1) [OF tn evs'] .
      have q: "\<forall>t. Posted ?req t \<in> set (since (sleep 2 w2) w') \<longrightarrow> quiet (rpc_status e ?req t)"
        using less.prems(2) sub by blast
      from less.hyps [OF m run q]
      have ih: "artifacts = []" "1000 * timeout \<le> clock w' - start_time"
        "verdicts (since (sleep 2 w2) w') = [TimedOut name]"
        by simp_all
      have "since w w' = (evs @ evs2 @ [Slept 2]) @ evs'" using since_trans [OF tn evs'] .
      moreover have "since (sleep 2 w2) w' = evs'" using since_append [OF evs'] .
      ultimately show ?thesis using ih v evs2(2) by simp
    qed
  qed
qed

text \<open>Evaluating the monitor on a concrete world.\<close>

lemma monitor_loop_starts:
  "monitor_loop e gid name timeout start_time last_update w = (r, w') \<Longrightarrow>
   \<exists>evs. trace w' = trace w @ evs
     \<and> (\<forall>t \<in> set (starts_from False evs). t - start_time < 1000 * timeout)"
proof (induction "nat (start_time + 1000 * timeout - clock w)" arbitrary: w last_update
    rule: less_induct)
  case less
  show ?case
  proof (cases "clock w - start_time < 1000 * timeout")
    case False
    with less.prems have "trace w' = trace w @ [Printed (TimedOut name)]"
      by (auto simp add: monitor_loop_deadline print_def emit_def)
    then show ?thesis by (intro exI [of _ "[Printed (TimedOut name)]"]) simp
  next
    case True
    obtain res w1 where call: "aria2_call (rpc_status e) (TellStatus gid status_keys) w = (res, w1)"
      by (cases "aria2_call (rpc_status e) (TellStatus gid status_keys) w")
    obtain evs where evs: "trace w1 = trace w @ evs" "evs \<noteq> []" "last evs \<noteq> Slept 1"
      "starts_from False evs = [clock w]"
      using aria2_call_starts [OF call] by blast
    have c1: "clock w \<le> clock w1" using call by (rule aria2_call_clock)
    have glue: "starts_from False (evs @ tl) = clock w # starts_from False tl" for tl
      using evs(2,3,4) by (simp add: starts_from_append)
    have rec: "\<exists>all. trace w' = trace w @ all
        \<and> (\<forall>t \<in> set (starts_from False all). t - start_time < 1000 * timeout)"
      if tn: "trace wn = trace w1 @ mid @ [Slept 2]"
        and mid: "starts_from False mid = []" "mid = [] \<or> last mid \<noteq> Slept 1"
        and cn: "clock w1 + 2000 \<le> clock wn"
        and run: "monitor_loop e gid name timeout start_time lu wn = (r, w')" for wn mid lu
    proof -
      have m: "nat (start_time + 1000 * timeout - clock wn)
          < nat (start_time + 1000 * timeout - clock w)"
        using True c1 cn by simp
      from less.hyps [OF m run]
      obtain evs' where evs': "trace w' = trace wn @ evs'"
        "\<forall>t \<in> set (starts_from False evs'). t - start_time < 1000 * timeout"
        by blast
      have t: "trace w' = trace w @ (evs @ (mid @ [Slept 2] @ evs'))"
        using evs' tn evs(1) by simp
      have "starts_from False (mid @ [Slept 2] @ evs') = starts_from False evs'"
        using mid by (cases "mid = []") (simp_all add: starts_from_append)
      then have "starts_from False (evs @ (mid @ [Slept 2] @ evs')) = clock w # starts_from False evs'"
        by (simp only: glue)
      then show ?thesis using t evs'(2) True by (intro exI [of _ "evs @ (mid @ [Slept 2] @ evs')"]) simp
    qed
    have stop: "\<exists>all. trace w' = trace w @ all
        \<and> (\<forall>t \<in> set (starts_from False all). t - start_time < 1000 * timeout)"
      if tn: "trace w' = trace w1 @ mid" and mid: "starts_from False mid = []" for mid
    proof -
      have "trace w' = trace w @ (evs @ mid)" using tn evs(1) by simp
      moreover have "starts_from False (evs @ mid) = [clock w]" using glue [of mid] mid
        using evs(2,3) by (simp add: starts_from_append)
      ultimately show ?thesis using True by (intro exI [of _ "evs @ mid"]) simp
    qed
    show ?thesis
    proof (cases "\<exists>status. res = Some (Body (Some status))")
      case False
      then have eq: "monitor_loop e gid name timeout start_time last_update w
          = monitor_loop e gid name timeout start_time last_update (sleep 2 w1)"
        using monitor_loop_no_status [OF True call] by blast
      show ?thesis
      proof (rule rec [of "sleep 2 w1" "[]" last_update])
        show "trace (sleep 2 w1) = trace w1 @ [] @ [Slept 2]" by (simp add: sleep_def emit_def)
        show "starts_from False [] = []" by simp
        show "[] = [] \<or> last [] \<noteq> Slept 1" by simp
        show "clock w1 + 2000 \<le> clock (sleep 2 w1)" by (simp add: sleep_def emit_def)
        show "monitor_loop e gid name timeout start_time last_update (sleep 2 w1) = (r, w')"
          using less.prems eq by simp
      qed
    next
      case ex: True
      then obtain status where res: "res = Some (Body (Some status))" by blast
      obtain last_update' w2 where
        p: "progress_update name (completed_of status) (total_of status) (speed_of status) last_update w1
            = (last_update', w2)"
        by (cases "progress_update name (completed_of status) (total_of status) (speed_of status) last_update w1")
      obtain mid where mid: "trace w2 = trace w1 @ mid" "starts_from False mid = []"
        "mid = [] \<or> (\<exists>m. mid = [Printed m])"
        using progress_update_events(3) [OF p] by auto
      have c2: "clock w2 = clock w1" using progress_update_events(2) [OF p] .
      note step = monitor_loop_status [OF True call [unfolded res] p]
      show ?thesis
      proof (cases "terminal status")
        case True
        then obtain v where "trace w' = trace w2 @ [Printed v]"
          using step less.prems
          by (auto simp add: state_terminal print_def emit_def split: if_splits)
        then have "trace w' = trace w1 @ (mid @ [Printed v])" using mid(1) by simp
        moreover have "starts_from False (mid @ [Printed v]) = []"
          using mid(2,3) by (auto simp add: starts_from_append)
        ultimately show ?thesis by (rule stop)
      next
        case False
        then have eq: "monitor_loop e gid name timeout start_time last_update w
            = monitor_loop e gid name timeout start_time last_update' (sleep 2 w2)"
          using step by (simp add: state_terminal)
        show ?thesis
        proof (rule rec [of "sleep 2 w2" mid last_update'])
          show "trace (sleep 2 w2) = trace w1 @ mid @ [Slept 2]"
            using mid(1) by (simp add: sleep_def emit_def)
          show "starts_from False mid = []" by (rule mid(2))
          show "mid = [] \<or> last mid \<noteq> Slept 1" using mid(3) by auto
          show "clock w1 + 2000 \<le> clock (sleep 2 w2)" using c2 by (simp add: sleep_def emit_def)
          show "monitor_loop e gid name timeout start_time last_update' (sleep 2 w2) = (r, w')"
            using less.prems eq by simp
        qed
      qed
    qed
  qed
qed

lemma monitor_loop_ceiling:
  assumes "\<forall>t. fst (rpc_status e (TellStatus gid status_keys) t) \<le> L"
    and "monitor_loop e gid name timeout start_time last_update w = (r, w')"
  shows "clock w' \<le> max (clock w) (start_time + 1000 * timeout + 3 * int L + 3999)"
  using assms(2)
proof (induction "nat (start_time + 1000 * timeout - clock w)" arbitrary: w last_update
    rule: less_induct)
  case less
  let ?top = "start_time + 1000 * timeout + 3 * int L + 3999"
  show ?case
  proof (cases "clock w - start_time < 1000 * timeout")
    case False
    with less.prems have "clock w' = clock w"
      by (auto simp add: monitor_loop_deadline print_def emit_def)
    then show ?thesis by simp
  next
    case True
    obtain res w1 where call: "aria2_call (rpc_status e) (TellStatus gid status_keys) w = (res, w1)"
      by (cases "aria2_call (rpc_status e) (TellStatus gid status_keys) w")
    have c1: "clock w \<le> clock w1" using call by (rule aria2_call_clock)
    have d1: "clock w1 \<le> clock w + 3 * int L + 2000"
      using aria2_call_duration [OF assms(1) call] .
    have rec: "clock w' \<le> max (clock w) ?top"
      if cn: "clock wn = clock w1 + 2000"
        and run: "monitor_loop e gid name timeout start_time lu wn = (r, w')" for wn lu
    proof -
      have m: "nat (start_time + 1000 * timeout - clock wn)
          < nat (start_time + 1000 * timeout - clock w)"
        using True c1 cn by simp
      have "clock w' \<le> max (clock wn) ?top" using less.hyps [OF m run] .
      moreover have "clock wn \<le> ?top" using cn d1 True by simp
      ultimately show ?thesis by simp
    qed
    show ?thesis
    proof (cases "\<exists>status. res = Some (Body (Some status))")
      case False
      then have eq: "monitor_loop e gid name timeout start_time last_update w
          = monitor_loop e gid name timeout start_time last_update (sleep 2 w1)"
        using monitor_loop_no_status [OF True call] by blast
      show ?thesis
      proof (rule rec [of "sleep 2 w1" last_update])
        show "clock (sleep 2 w1) = clock w1 + 2000" by (simp add: sleep_def emit_def)
        show "monitor_loop e gid name timeout start_time last_update (sleep 2 w1) = (r, w')"
          using less.prems eq by simp
      qed
    next
      case ex: True
      then obtain status where res: "res = Some (Body (Some status))" by blast
      obtain last_update' w2 where
        p: "progress_update name (completed_of status) (total_of status) (speed_of status) last_update w1
            = (last_update', w2)"
        by (cases "progress_update name (completed_of status) (total_of status) (speed_of status) last_update w1")
      have c2: "clock w2 = clock w1" using progress_update_events(2) [OF p] .
      note step = monitor_loop_status [OF True call [unfolded res] p]
      show ?thesis
      proof (cases "terminal status")
        case True
        then have "clock w' = clock w2"
          using step less.prems
          by (auto simp add: state_terminal print_def emit_def split: if_splits)
        then show ?thesis using c2 d1 \<open>clock w - start_time < 1000 * timeout\<close> by simp
      next
        case False
        then have eq: "monitor_loop e gid name timeout start_time last_update w
            = monitor_loop e gid name timeout start_time last_update' (sleep 2 w2)"
          using step by (simp add: state_terminal)
        show ?thesis
        proof (rule rec [of "sleep 2 w2" last_update'])
          show "clock (sleep 2 w2) = clock w1 + 2000" using c2 by (simp add: sleep_def emit_def)
          show "monitor_loop e gid name timeout start_time last_update' (sleep 2 w2) = (r, w')"
            using less.prems eq by simp
        qed
      qed
    qed
  qed
qed

lemmas monitor_eval =
  monitor_download_def monitor_loop.simps aria2_call_unfold demo_world_def demo_status_def
  progress_update_def eta_of_def print_def emit_def sleep_def downloaded_paths_def
  path_exists_def Let_def

section \<open>Runs of the selection applier\<close>

lemma get_torrent_files_loop_deadline:
  "\<not> clock w - start_time < 1000 * timeout \<Longrightarrow>
   get_torrent_files_loop e gid timeout start_time w = ([], w)"
  by (subst get_torrent_files_loop.simps) simp

lemma get_torrent_files_loop_step:
  assumes "clock w - start_time < 1000 * timeout"
    and "aria2_call (rpc_status e) (poll_request gid) w = (res, w1)"
  shows "get_torrent_files_loop e gid timeout start_time w
         = (if files_of res \<noteq> [] then (files_of res, w1)
            else get_torrent_files_loop e gid timeout start_time (sleep 1 w1))"
  using assms
  by (subst get_torrent_files_loop.simps)
     (auto simp add: files_of_def poll_request_def Let_def split: option.splits body.splits)

lemma call_events_shape:
  "call_events req evs \<Longrightarrow>
   \<forall>ev \<in> set evs. (\<exists>t. ev = Posted req t) \<or> ev = Slept 1 \<or> ev = Printed RpcCallFailed"
  unfolding call_events_def by blast

lemma call_events_commands: "call_events req evs \<Longrightarrow> commands_run evs = []"
  unfolding call_events_def by blast

lemma call_events_set:
  assumes "call_events req evs"
  shows "set (requests evs) = {req}"
proof -
  from assms consider "requests evs = [req]" | "requests evs = [req, req]"
    | "requests evs = [req, req, req]"
    unfolding call_events_def by blast
  then show ?thesis by cases simp_all
qed

lemma call_events_length:
  assumes "call_events req evs"
  shows "requests evs = replicate (length (requests evs)) req
    \<and> 1 \<le> length (requests evs) \<and> length (requests evs) \<le> 3"
proof -
  from assms consider "requests evs = [req]" | "requests evs = [req, req]"
    | "requests evs = [req, req, req]"
    unfolding call_events_def by blast
  then show ?thesis by cases simp_all
qed

lemma budget_pos: "0 < (x::int) \<Longrightarrow> 1 \<le> nat ((x + 999) div 1000)"
  by simp

lemma budget_step:
  "0 < (x::int) \<Longrightarrow> y + 1000 \<le> x \<Longrightarrow> nat ((y + 999) div 1000) + 1 \<le> nat ((x + 999) div 1000)"
proof -
  assume a: "0 < x" "y + 1000 \<le> x"
  have "(y + 999) div 1000 + 1 = (y + 1000 + 999) div 1000" by simp
  also have "\<dots> \<le> (x + 999) div 1000" using a(2) by (intro zdiv_mono1) simp_all
  finally have "(y + 999) div 1000 + 1 \<le> (x + 999) div 1000" .
  moreover have "0 < (x + 999) div 1000" using a(1) by simp
  ultimately show ?thesis by linarith
qed

lemma get_torrent_files_loop_run:
  "get_torrent_files_loop e gid timeout start_time w = (files, w1) \<Longrightarrow>
   \<exists>evs k. trace w1 = trace w @ evs \<and> requests evs = replicate k (poll_request gid)
     \<and> k \<le> 3 * nat ((start_time + 1000 * timeout - clock w + 999) div 1000)
     \<and> commands_run evs = [] \<and> disk w1 = disk w"
proof (induction "nat (start_time + 1000 * timeout - clock w)" arbitrary: w rule: less_induct)
  case less
  show ?case
  proof (cases "clock w - start_time < 1000 * timeout")
    case False
    with less.prems have "w1 = w" by (simp add: get_torrent_files_loop_deadline)
    then show ?thesis by simp
  next
    case True
    obtain res w0 where call: "aria2_call (rpc_status e) (poll_request gid) w = (res, w0)"
      by (cases "aria2_call (rpc_status e) (poll_request gid) w")
    obtain evs where evs: "trace w0 = trace w @ evs" "call_events (poll_request gid) evs"
      using aria2_call_events(1) [OF call] by blast
    have d0: "disk w0 = disk w" using aria2_call_events(2) [OF call] .
    have c0: "clock w \<le> clock w0" using call by (rule aria2_call_clock)
    note len = call_events_length [OF evs(2)]
    have cr: "commands_run evs = []" using evs(2) by (rule call_events_commands)
    let ?b = "\<lambda>c. nat ((start_time + 1000 * timeout - c + 999) div 1000)"
    have pos: "0 < start_time + 1000 * timeout - clock w" using True by simp
    have b1: "1 \<le> ?b (clock w)" using budget_pos [OF pos] .
    note step = get_torrent_files_loop_step [OF True call]
    show ?thesis
    proof (cases "files_of res \<noteq> []")
      case True
      with step less.prems have "w1 = w0" by simp
      then show ?thesis
        using evs(1) len cr d0 b1 by (intro exI [of _ evs] exI [of _ "length (requests evs)"]) auto
    next
      case False
      then have run: "get_torrent_files_loop e gid timeout start_time (sleep 1 w0) = (files, w1)"
        using step less.prems by simp
      have m: "nat (start_time + 1000 * timeout - clock (sleep 1 w0))
          < nat (start_time + 1000 * timeout - clock w)"
        using \<open>clock w - start_time < 1000 * timeout\<close> c0 by (simp add: sleep_def emit_def)
      from less.hyps [OF m run]
      obtain evs' k where ih: "trace w1 = trace (sleep 1 w0) @ evs'"
        "requests evs' = replicate k (poll_request gid)"
        "k \<le> 3 * ?b (clock (sleep 1 w0))" "commands_run evs' = []" "disk w1 = disk (sleep 1 w0)"
        by blast
      have cs: "clock (sleep 1 w0) = clock w0 + 1000" by (simp add: sleep_def emit_def)
      have "start_time + 1000 * timeout - clock (sleep 1 w0) + 1000
          \<le> start_time + 1000 * timeout - clock w"
        using c0 cs by simp
      from budget_step [OF pos this]
      have "?b (clock (sleep 1 w0)) + 1 \<le> ?b (clock w)" .
      moreover have "length (requests evs) \<le> 3" using len by simp
      ultimately have bound: "length (requests evs) + k \<le> 3 * ?b (clock w)"
        using ih(3) by linarith
      have tr: "trace w1 = trace w @ (evs @ [Slept 1] @ evs')"
        using ih(1) evs(1) by (simp add: sleep_def emit_def)
      have rq: "requests (evs @ [Slept 1] @ evs') = replicate (length (requests evs) + k) (poll_request gid)"
        using len ih(2) by (simp add: replicate_add)
      show ?thesis
        using tr rq bound cr ih(4,5) d0
        by (intro exI [of _ "evs @ [Slept 1] @ evs'"] exI [of _ "length (requests evs) + k"])
           (simp add: sleep_def emit_def)
    qed
  qed
qed

lemma marks_Cons: "marks gid m (ev # evs) = marks gid (mark gid m ev) evs"
  by (simp add: marks_def)

lemma marks_select_events:
  "\<forall>ev \<in> set evs. (\<exists>t. ev = Posted (SelectFile gid i b) t) \<or> ev = Slept 1 \<or> ev = Printed RpcCallFailed
   \<Longrightarrow> marks gid m evs j = (if requests evs \<noteq> [] \<and> j = i then b else m j)"
proof (induction evs arbitrary: m)
  case Nil
  show ?case by (simp add: marks_def)
next
  case (Cons ev evs)
  have ih: "marks gid m' evs j = (if requests evs \<noteq> [] \<and> j = i then b else m' j)" for m'
    using Cons by simp
  from Cons.prems consider t where "ev = Posted (SelectFile gid i b) t"
    | "ev = Slept 1" | "ev = Printed RpcCallFailed"
    by auto
  then show ?case
  proof cases
    case 1
    have "mark gid m ev = m(i := b)" unfolding 1 by simp
    then have "marks gid m (ev # evs) j = marks gid (m(i := b)) evs j"
      by (simp only: marks_Cons)
    also have "\<dots> = (if j = i then b else m j)"
      unfolding ih [of "m(i := b)"] by simp
    finally show ?thesis unfolding 1 by simp
  next
    case 2
    have "mark gid m ev = m" unfolding 2 by simp
    then have "marks gid m (ev # evs) j = marks gid m evs j" by (simp only: marks_Cons)
    then show ?thesis unfolding 2 using ih [of m] by simp
  next
    case 3
    have "mark gid m ev = m" unfolding 3 by simp
    then have "marks gid m (ev # evs) j = marks gid m evs j" by (simp only: marks_Cons)
    then show ?thesis unfolding 3 using ih [of m] by simp
  qed
qed

lemma marks_call_events:
  assumes "call_events (SelectFile gid i b) evs"
  shows "marks gid m evs j = (if j = i then b else m j)"
proof -
  have ne: "requests evs \<noteq> []"
  proof
    assume "requests evs = []"
    with call_events_set [OF assms] show False by simp
  qed
  have e: "marks gid m evs j = (if requests evs \<noteq> [] \<and> j = i then b else m j)"
    by (rule marks_select_events [OF call_events_shape [OF assms]])
  show ?thesis unfolding e using ne by simp
qed

lemma mark_other:
  assumes "\<forall>g i b t. ev \<noteq> Posted (SelectFile g i b) t"
  shows "mark gid m ev = m"
proof (cases ev)
  case (Posted r t)
  then show ?thesis using assms by (cases r) simp_all
qed simp_all

lemma marks_other:
  assumes "\<forall>ev \<in> set evs. \<forall>g i b t. ev \<noteq> Posted (SelectFile g i b) t"
  shows "marks gid m evs = m"
  using assms
proof (induction evs)
  case Nil
  then show ?case by (simp add: marks_def)
next
  case (Cons ev evs)
  have "mark gid m ev = m" using Cons.prems by (intro mark_other) simp
  then have "marks gid m (ev # evs) = marks gid m evs" by (simp only: marks_Cons)
  then show ?case using Cons by simp
qed

lemma requests_set:
  "r \<in> set (requests evs) \<longleftrightarrow> (\<exists>t. Posted r t \<in> set evs)"
  by (induction evs rule: requests.induct) auto

lemma marks_no_select:
  assumes "\<forall>r \<in> set (requests evs). \<forall>g i b. r \<noteq> SelectFile g i b"
  shows "marks gid m evs = m"
proof (rule marks_other)
  show "\<forall>ev \<in> set evs. \<forall>g i b t. ev \<noteq> Posted (SelectFile g i b) t"
    using assms requests_set by blast
qed

lemma select_files_run:
  "\<exists>evs. trace (fold (select_file e gid S) [0..<n] w) = trace w @ evs
     \<and> set (requests evs) = wanted gid S ` {..<n}
     \<and> (\<forall>m j. marks gid m evs j = (if j < n then int j \<in> set S else m j))
     \<and> commands_run evs = []
     \<and> disk (fold (select_file e gid S) [0..<n] w) = disk w"
proof (induction n)
  case 0
  show ?case by (simp add: marks_def)
next
  case (Suc n)
  let ?w = "fold (select_file e gid S) [0..<n] w"
  obtain evs where evs: "trace ?w = trace w @ evs" "set (requests evs) = wanted gid S ` {..<n}"
    "\<And>m j. marks gid m evs j = (if j < n then int j \<in> set S else m j)"
    "commands_run evs = []" "disk ?w = disk w"
    using Suc by blast
  obtain r w1 where call: "aria2_call (rpc_command e) (wanted gid S n) ?w = (r, w1)"
    by (cases "aria2_call (rpc_command e) (wanted gid S n) ?w")
  obtain evs1 where evs1: "trace w1 = trace ?w @ evs1" "call_events (wanted gid S n) evs1"
    using aria2_call_events(1) [OF call] by blast
  have d1: "disk w1 = disk ?w" using aria2_call_events(2) [OF call] .
  have f: "fold (select_file e gid S) [0..<Suc n] w = w1"
    using call by (simp add: select_file_def wanted_def Let_def)
  have s1: "set (requests evs1) = {wanted gid S n}"
    using evs1(2) by (rule call_events_set)
  have m1: "marks gid m evs1 j = (if j = n then int n \<in> set S else m j)" for m j
    using marks_call_events [OF evs1(2) [unfolded wanted_def]] .
  have m2: "marks gid m (evs @ evs1) j = (if j < Suc n then int j \<in> set S else m j)" for m j
  proof -
    have "marks gid m (evs @ evs1) j = marks gid (marks gid m evs) evs1 j" by simp
    also have "\<dots> = (if j = n then int n \<in> set S else marks gid m evs j)" by (rule m1)
    also have "\<dots> = (if j < Suc n then int j \<in> set S else m j)"
      unfolding evs(3) by (cases "j = n") (simp_all add: less_Suc_eq)
    finally show ?thesis .
  qed
  have s2: "set (requests (evs @ evs1)) = wanted gid S ` {..<Suc n}"
    using evs(2) s1 by (simp add: lessThan_Suc)
  have c2: "commands_run (evs @ evs1) = []"
    using evs(4) call_events_commands [OF evs1(2)] by simp
  have t2: "trace w1 = trace w @ (evs @ evs1)" using evs1(1) evs(1) by simp
  have d2: "disk w1 = disk w" using d1 evs(5) by simp
  show ?case
    unfolding f using t2 s2 m2 c2 d2 by blast
qed

lemma replicate_poll_no_select:
  "\<forall>r \<in> set (replicate k (poll_request gid)). \<forall>g i b. r \<noteq> SelectFile g i b"
  by (simp add: poll_request_def)

lemma apply_file_selection_run:
  assumes "get_torrent_files e gid 15 (print ApplyingSelection w) = (files, w1)"
  shows "\<exists>polls k sel mid ue.
      trace (apply_file_selection e gid S w)
        = trace w @ ([Printed ApplyingSelection] @ polls @ sel @ [Printed mid] @ ue)
      \<and> requests polls = replicate k (poll_request gid) \<and> k \<le> 45
      \<and> set (requests sel) = wanted gid S ` {..<length files}
      \<and> (\<forall>m j. marks gid m sel j = (if j < length files then int j \<in> set S else m j))
      \<and> call_events (Unpause gid) ue"
proof -
  let ?w0 = "print ApplyingSelection w"
  have t0: "trace ?w0 = trace w @ [Printed ApplyingSelection]" by (simp add: print_def emit_def)
  have loop: "get_torrent_files_loop e gid 15 (clock ?w0) ?w0 = (files, w1)"
    using assms by (simp add: get_torrent_files_def)
  obtain polls k where polls: "trace w1 = trace ?w0 @ polls"
    "requests polls = replicate k (poll_request gid)"
    "k \<le> 3 * nat ((clock ?w0 + 1000 * 15 - clock ?w0 + 999) div 1000)"
    using get_torrent_files_loop_run [OF loop] by blast
  have k: "k \<le> 45" using polls(3) by simp
  show ?thesis
  proof (cases "files = []")
    case True
    let ?w2 = "print NoFileList w1"
    obtain r w' where call: "aria2_call (rpc_command e) (Unpause gid) ?w2 = (r, w')"
      by (cases "aria2_call (rpc_command e) (Unpause gid) ?w2")
    obtain ue where ue: "trace w' = trace ?w2 @ ue" "call_events (Unpause gid) ue"
      using aria2_call_events(1) [OF call] by blast
    have res: "apply_file_selection e gid S w = w'"
      using assms True call by (simp add: apply_file_selection_def)
    have tr: "trace w' = trace w @ ([Printed ApplyingSelection] @ polls @ [] @ [Printed NoFileList] @ ue)"
      using ue(1) polls(1) t0 by (simp add: print_def emit_def)
    have s: "set (requests []) = wanted gid S ` {..<length files}" using True by simp
    have m: "\<forall>m j. marks gid m [] j = (if j < length files then int j \<in> set S else m j)"
      using True by (simp add: marks_def)
    show ?thesis
      unfolding res using tr polls(2) k s m ue(2) by blast
  next
    case False
    let ?w2 = "fold (select_file e gid S) [0..<length files] w1"
    let ?w3 = "print (SelectedCount (length S)) ?w2"
    obtain sel where sel: "trace ?w2 = trace w1 @ sel"
      "set (requests sel) = wanted gid S ` {..<length files}"
      "\<forall>m j. marks gid m sel j = (if j < length files then int j \<in> set S else m j)"
      using select_files_run [of e gid S "length files" w1] by blast
    obtain r w' where call: "aria2_call (rpc_command e) (Unpause gid) ?w3 = (r, w')"
      by (cases "aria2_call (rpc_command e) (Unpause gid) ?w3")
    obtain ue where ue: "trace w' = trace ?w3 @ ue" "call_events (Unpause gid) ue"
      using aria2_call_events(1) [OF call] by blast
    have res: "apply_file_selection e gid S w = w'"
      using assms False call by (simp add: apply_file_selection_def Let_def)
    have tr: "trace w' = trace w @ ([Printed ApplyingSelection] @ polls @ sel
        @ [Printed (SelectedCount (length S))] @ ue)"
      using ue(1) sel(1) polls(1) t0 by (simp add: print_def emit_def)
    show ?thesis
      unfolding res using tr polls(2) k sel(2,3) ue(2) by blast
  qed
qed

lemma marks_printed: "marks gid m [Printed x] = m"
  by (simp add: marks_def)

lemma apply_file_selection_marks:
  assumes "get_torrent_files e gid 15 (print ApplyingSelection w) = (files, w1)"
  shows "\<exists>evs. trace (apply_file_selection e gid S w) = trace w @ evs
      \<and> (\<forall>m j. marks gid m evs j = (if j < length files then int j \<in> set S else m j))
      \<and> {r \<in> set (requests evs). \<exists>g i b. r = SelectFile g i b} = wanted gid S ` {..<length files}"
proof -
  obtain polls k sel mid ue where run:
    "trace (apply_file_selection e gid S w)
       = trace w @ ([Printed ApplyingSelection] @ polls @ sel @ [Printed mid] @ ue)"
    "requests polls = replicate k (poll_request gid)"
    "set (requests sel) = wanted gid S ` {..<length files}"
    "\<forall>m j. marks gid m sel j = (if j < length files then int j \<in> set S else m j)"
    "call_events (Unpause gid) ue"
    using apply_file_selection_run [OF assms] by blast
  let ?evs = "[Printed ApplyingSelection] @ polls @ sel @ [Printed mid] @ ue"
  have mp: "marks gid m polls = m" for m
    by (rule marks_no_select) (simp add: run(2) poll_request_def)
  have su: "set (requests ue) = {Unpause gid}" using run(5) by (rule call_events_set)
  have mu: "marks gid m ue = m" for m
    by (rule marks_no_select) (simp add: su)
  have m: "marks gid m ?evs j = (if j < length files then int j \<in> set S else m j)" for m j
    using run(4) by (simp add: mp mu marks_printed del: append_Cons)
  have r: "{r \<in> set (requests ?evs). \<exists>g i b. r = SelectFile g i b} = wanted gid S ` {..<length files}"
    using run(3) su by (auto simp add: run(2) poll_request_def wanted_def)
  show ?thesis using run(1) m r by blast
qed

section \<open>Runs of the post-processor\<close>

lemma run_eq:
  "run e cmd out w = (ffmpeg e cmd,
     w\<lparr>trace := trace w @ [Ran cmd],
       disk := (\<lambda>p. if p = out then content_after (ffmpeg e cmd) (disk w out) else disk w p)\<rparr>)"
  by (auto simp add: run_def emit_def Let_def content_after_def written_def fun_eq_iff
      split: option.splits tool_outcome.splits)

lemma tag_output_inj [simp]: "tag_output base l = tag_output base l' \<longleftrightarrow> l = l'"
  by (simp add: tag_output_def)

lemma tag_output_nonempty [simp]: "tag_output base l \<noteq> []"
  by (simp add: tag_output_def)

lemma fallback_not_tag: "base @ ''.srt'' \<noteq> tag_output base l"
proof
  assume "base @ ''.srt'' = tag_output base l"
  then have "length (base @ ''.srt'') = length (tag_output base l)" by simp
  then show False by (simp add: tag_output_def)
qed

lemma tag_success_cong:
  "disk w (tag_output base l) = disk w0 (tag_output base l) \<Longrightarrow>
   tag_success e w v base l = tag_success e w0 v base l"
  by (simp add: tag_success_def)

lemma try_languages_step:
  "try_languages e v base (lang # rest) w =
     (let w1 = snd (run e (tag_cmd v base lang) (tag_output base lang) w)
      in if tag_success e w v base lang
         then ([tag_output base lang], print (ExtractedLanguage lang) w1)
         else try_languages e v base rest w1)"
proof -
  let ?out = "tag_output base lang" and ?cmd = "tag_cmd v base lang"
  obtain w1 where r: "run e ?cmd ?out w = (ffmpeg e ?cmd, w1)"
    and d: "disk w1 ?out = content_after (ffmpeg e ?cmd) (disk w ?out)"
    by (simp add: run_eq)
  have u: "try_languages e v base (lang # rest) w =
      (case run e ?cmd ?out w of
         (ToolExits returncode b, w1) \<Rightarrow>
           if returncode = 0 \<and> path_exists w1 ?out
              \<and> (case getsize w1 ?out of Some n \<Rightarrow> n > 100 | None \<Rightarrow> False)
           then ([?out], print (ExtractedLanguage lang) w1)
           else try_languages e v base rest w1
       | (ToolRaises b, w1) \<Rightarrow> try_languages e v base rest w1)"
    unfolding tag_output_def tag_cmd_def
    by (simp add: Let_def cong: prod.case_cong tool_outcome.case_cong if_cong)
  show ?thesis
  proof (cases "ffmpeg e ?cmd")
    case (ToolRaises b)
    then show ?thesis
      unfolding u r by (simp add: tag_success_def exits_zero_def Let_def)
  next
    case (ToolExits rc b)
    have "(rc = 0 \<and> path_exists w1 ?out
           \<and> (case getsize w1 ?out of Some n \<Rightarrow> n > 100 | None \<Rightarrow> False))
        = tag_success e w v base lang"
      unfolding tag_success_def Let_def ToolExits path_exists_def getsize_def d
      by (cases "content_after (ToolExits rc b) (disk w ?out)") (simp_all add: exits_zero_def)
    then show ?thesis
      unfolding u r ToolExits by (simp add: Let_def)
  qed
qed

lemma run_trace: "trace (snd (run e cmd out w)) = trace w @ [Ran cmd]"
  by (simp add: run_eq)

lemma run_disk_other: "p \<noteq> out \<Longrightarrow> disk (snd (run e cmd out w)) p = disk w p"
  by (simp add: run_eq)

lemma run_disk_out:
  "disk (snd (run e cmd out w)) out = content_after (ffmpeg e cmd) (disk w out)"
  by (simp add: run_eq)

lemma try_languages_run:
  assumes "distinct ls"
    and "\<forall>l \<in> set ls. disk w (tag_output base l) = disk w0 (tag_output base l)"
    and "try_languages e v base ls w = (res, w')"
  shows "\<exists>evs. trace w' = trace w @ evs
     \<and> (case find (tag_success e w0 v base) ls of
          Some l \<Rightarrow> res = [tag_output base l]
            \<and> commands_run evs
                = map (tag_cmd v base) (takeWhile (\<lambda>l. \<not> tag_success e w0 v base l) ls @ [l])
        | None \<Rightarrow> res = [] \<and> commands_run evs = map (tag_cmd v base) ls
            \<and> (\<forall>p. p \<notin> tag_output base ` set ls \<longrightarrow> disk w' p = disk w p))"
  using assms
proof (induction ls arbitrary: w)
  case Nil
  then show ?case by simp
next
  case (Cons lang rest)
  let ?w1 = "snd (run e (tag_cmd v base lang) (tag_output base lang) w)"
  have ok: "tag_success e w v base lang = tag_success e w0 v base lang"
    using Cons.prems(2) by (intro tag_success_cong) simp
  have t1: "trace ?w1 = trace w @ [Ran (tag_cmd v base lang)]" by (rule run_trace)
  show ?case
  proof (cases "tag_success e w0 v base lang")
    case True
    then have "res = [tag_output base lang]" and "w' = print (ExtractedLanguage lang) ?w1"
      using Cons.prems(3) ok by (simp_all add: try_languages_step Let_def del: try_languages.simps)
    then have "trace w' = trace w @ [Ran (tag_cmd v base lang), Printed (ExtractedLanguage lang)]"
      using t1 by (simp add: print_def emit_def)
    then show ?thesis
      using True \<open>res = [tag_output base lang]\<close>
      by (intro exI [of _ "[Ran (tag_cmd v base lang), Printed (ExtractedLanguage lang)]"]) simp
  next
    case False
    then have rec: "try_languages e v base rest ?w1 = (res, w')"
      using Cons.prems(3) ok by (simp add: try_languages_step Let_def del: try_languages.simps)
    have d: "distinct rest" and nin: "lang \<notin> set rest" using Cons.prems(1) by simp_all
    have inv: "\<forall>l \<in> set rest. disk ?w1 (tag_output base l) = disk w0 (tag_output base l)"
    proof
      fix l assume l: "l \<in> set rest"
      then have "tag_output base l \<noteq> tag_output base lang" using nin by auto
      then have "disk ?w1 (tag_output base l) = disk w (tag_output base l)"
        by (rule run_disk_other)
      then show "disk ?w1 (tag_output base l) = disk w0 (tag_output base l)"
        using Cons.prems(2) l by simp
    qed
    from Cons.IH [OF d inv rec]
    obtain evs where evs: "trace w' = trace ?w1 @ evs"
      "case find (tag_success e w0 v base) rest of
          Some l \<Rightarrow> res = [tag_output base l]
            \<and> commands_run evs
                = map (tag_cmd v base) (takeWhile (\<lambda>l. \<not> tag_success e w0 v base l) rest @ [l])
        | None \<Rightarrow> res = [] \<and> commands_run evs = map (tag_cmd v base) rest
            \<and> (\<forall>p. p \<notin> tag_output base ` set rest \<longrightarrow> disk w' p = disk ?w1 p)"
      by blast
    have tr: "trace w' = trace w @ (Ran (tag_cmd v base lang) # evs)"
      using evs(1) t1 by simp
    have "case find (tag_success e w0 v base) (lang # rest) of
          Some l \<Rightarrow> res = [tag_output base l]
            \<and> commands_run (Ran (tag_cmd v base lang) # evs)
                = map (tag_cmd v base) (takeWhile (\<lambda>l. \<not> tag_success e w0 v base l) (lang # rest) @ [l])
        | None \<Rightarrow> res = [] \<and> commands_run (Ran (tag_cmd v base lang) # evs) = map (tag_cmd v base) (lang # rest)
            \<and> (\<forall>p. p \<notin> tag_output base ` set (lang # rest) \<longrightarrow> disk w' p = disk w p)"
    proof (cases "find (tag_success e w0 v base) rest")
      case None
      then show ?thesis
        using evs(2) False by (auto simp add: run_disk_other)
    next
      case (Some l)
      then show ?thesis
        using evs(2) False by simp
    qed
    with tr show ?thesis by blast
  qed
qed

lemma extract_fallback_run:
  assumes "extract_fallback e video_path base w1 = (extracted, w')"
    and "disk w1 (base @ ''.srt'') = disk w (base @ ''.srt'')"
  shows "extracted = (if fallback_success e w video_path base then [base @ ''.srt''] else [])"
    and "\<exists>tl. trace w' = trace w1 @ (Ran (fallback_cmd video_path (base @ ''.srt'')) # tl)
            \<and> commands_run tl = []"
proof -
  let ?out = "base @ ''.srt''" and ?cmd = "fallback_cmd video_path (base @ ''.srt'')"
  obtain w2 where run: "run e ?cmd ?out w1 = (ffmpeg e ?cmd, w2)"
    and tr2: "trace w2 = trace w1 @ [Ran ?cmd]"
    and d2: "disk w2 ?out = content_after (ffmpeg e ?cmd) (disk w ?out)"
    using assms(2) by (simp add: run_eq)
  have ne: "?out \<noteq> []" by simp
  have pe: "path_exists w2 ?out \<longleftrightarrow> content_after (ffmpeg e ?cmd) (disk w ?out) \<noteq> None"
    unfolding path_exists_def d2 using ne by simp
  have fb: "extract_fallback e video_path base w1 =
      (case ffmpeg e ?cmd of
         ToolExits returncode b \<Rightarrow>
           if returncode = 0 \<and> path_exists w2 ?out
           then ([?out], print ExtractedFirstAvailable w2) else ([], w2)
       | ToolRaises b \<Rightarrow> ([], print NoSubtitlesFound w2))"
    unfolding extract_fallback_def Let_def run by simp
  show "extracted = (if fallback_success e w video_path base then [?out] else [])"
  proof (cases "ffmpeg e ?cmd")
    case (ToolRaises b)
    then show ?thesis
      using assms(1) unfolding fb by (simp add: fallback_success_def exits_zero_def Let_def)
  next
    case (ToolExits rc b)
    have fs: "fallback_success e w video_path base \<longleftrightarrow> (rc = 0 \<and> path_exists w2 ?out)"
      unfolding fallback_success_def Let_def pe by (simp add: ToolExits exits_zero_def)
    have r: "(if rc = 0 \<and> path_exists w2 ?out
              then ([?out], print ExtractedFirstAvailable w2) else ([], w2)) = (extracted, w')"
      using assms(1) unfolding fb ToolExits by (simp only: tool_outcome.case)
    show ?thesis
    proof (cases "rc = 0 \<and> path_exists w2 ?out")
      case True
      then have "extracted = [?out]" using r by simp
      then show ?thesis using fs True by simp
    next
      case False
      then have "extracted = []" using r by auto
      then show ?thesis using fs False by simp
    qed
  qed
  show "\<exists>tl. trace w' = trace w1 @ (Ran ?cmd # tl) \<and> commands_run tl = []"
  proof (cases "ffmpeg e ?cmd")
    case (ToolRaises b)
    then have "w' = print NoSubtitlesFound w2" using assms(1) unfolding fb by simp
    then have "trace w' = trace w1 @ (Ran ?cmd # [Printed NoSubtitlesFound])"
      using tr2 by (simp add: print_def emit_def)
    then show ?thesis by (intro exI [of _ "[Printed NoSubtitlesFound]"]) simp
  next
    case (ToolExits rc b)
    show ?thesis
    proof (cases "rc = 0 \<and> path_exists w2 ?out")
      case True
      then have "w' = print ExtractedFirstAvailable w2"
        using assms(1) unfolding fb ToolExits by (auto split: if_splits)
      then have "trace w' = trace w1 @ (Ran ?cmd # [Printed ExtractedFirstAvailable])"
        using tr2 by (simp add: print_def emit_def)
      then show ?thesis by (intro exI [of _ "[Printed ExtractedFirstAvailable]"]) simp
    next
      case False
      then have "w' = w2" using assms(1) unfolding fb ToolExits by (auto split: if_splits)
      then have "trace w' = trace w1 @ (Ran ?cmd # [])" using tr2 by simp
      then show ?thesis by (intro exI [of _ "[]"]) simp
    qed
  qed
qed

lemma shutil_move_ok:
  assumes "shutil_move src dst w = (None, w')"
  shows "\<not> path_exists w' src" and "path_exists w' (dst @ ''/'' @ basename src)"
    and "trace w' = trace w @ [Moved src (dst @ ''/'' @ basename src)]"
proof -
  let ?real = "dst @ ''/'' @ basename src"
  have ne: "\<not> path_exists w ?real"
    using assms by (auto simp add: shutil_move_def Let_def split: if_splits)
  obtain bytes where b: "disk w src = Some bytes"
    using assms by (auto simp add: shutil_move_def Let_def split: if_splits option.splits)
  have w': "w' = emit (Moved src ?real) (w\<lparr>disk := (disk w)(src := None, ?real \<mapsto> bytes)\<rparr>)"
    using assms ne b by (simp add: shutil_move_def Let_def)
  have neq: "src \<noteq> ?real"
  proof
    assume eq: "src = ?real"
    have "?real \<noteq> []" by simp
    moreover have "disk w ?real = Some bytes" using b eq by simp
    ultimately have "path_exists w ?real" by (simp only: path_exists_def) simp
    with ne show False by simp
  qed
  show "\<not> path_exists w' src" using neq by (simp add: w' emit_def path_exists_def)
  show "path_exists w' ?real" by (simp add: w' emit_def path_exists_def)
  show "trace w' = trace w @ [Moved src ?real]" by (simp add: w' emit_def)
qed

lemma process_file_absent:
  "\<not> path_exists w file_path \<Longrightarrow> process_file e file_path w = (None, w)"
  by (simp add: process_file_def)

lemma process_file_moves:
  assumes "path_exists w file_path" and "process_file e file_path w = (None, w')"
  shows "\<exists>w2. shutil_move file_path OUTPUT_DIR w2 = (None, w')"
  using assms
  by (auto simp add: process_file_def Let_def split: option.splits prod.splits if_splits)

lemma process_files_absent:
  "\<forall>p \<in> set files. \<not> path_exists w p \<Longrightarrow> process_files e files w = (None, w)"
  by (induction files) (simp_all add: process_file_absent)

text \<open>Evaluating the post-processor on a concrete world.\<close>

lemmas post_eval =
  process_file_def path_exists_def getsize_def demo_world_def is_video_def video_extensions_def
  endswith_def lower_def lower_char_def extract_subtitles_def languages_def run_def
  extract_fallback_def shutil_move_def OUTPUT_DIR_def basename_def splitext_root_def print_def
  emit_def language_cmd_def fallback_cmd_def Let_def

section \<open>The claims\<close>

text \<open>
  C4. Whatever the method and its parameters, the control-channel call makes at most
  three attempts, a backoff of one second apart. With \<open>t k\<close> the instant of attempt \<open>k\<close> on
  that schedule and \<open>out k\<close> what the channel does with it: the call returns the answer of
  the first attempt that succeeds, having posted nothing after it; when all three fail it
  returns \<^verbatim>\<open>None\<close>, the failure being printed last. The call is a total function into an
  option: nothing is raised to the caller.
\<close>

theorem aria2_call_retry_budget:
  fixes ch :: "'a channel" and req :: request and w :: world
  defines "t \<equiv> attempt_time ch req (clock w)"
  defines "out \<equiv> \<lambda>k. snd (ch req (t k))"
  assumes call: "aria2_call ch req w = (r, w')"
  shows "(out 0 \<noteq> None \<longrightarrow> r = out 0 \<and> since w w' = [Posted req (t 0)])
       \<and> (out 0 = None \<and> out 1 \<noteq> None \<longrightarrow>
            r = out 1 \<and> since w w' = [Posted req (t 0), Slept 1, Posted req (t 1)])
       \<and> (out 0 = None \<and> out 1 = None \<and> out 2 \<noteq> None \<longrightarrow>
            r = out 2
            \<and> since w w' = [Posted req (t 0), Slept 1, Posted req (t 1), Slept 1, Posted req (t 2)])
       \<and> (out 0 = None \<and> out 1 = None \<and> out 2 = None \<longrightarrow>
            r = None
            \<and> since w w' = [Posted req (t 0), Slept 1, Posted req (t 1), Slept 1, Posted req (t 2),
                             Printed RpcCallFailed])"
proof -
  have t0: "t 0 = clock w" by (simp add: t_def)
  have t1: "t 1 = clock w + int (fst (ch req (clock w))) + 1000"
    by (simp add: t_def Let_def)
  have t2: "t 2 = t 1 + int (fst (ch req (t 1))) + 1000"
    by (simp add: t_def Let_def numeral_2_eq_2)
  show ?thesis
    using call unfolding out_def t2 t1 t0
    by (auto simp add: aria2_call_unfold Let_def since_def split: option.splits)
qed

text \<open>
  The scenario of the specification: the call fails twice and succeeds on the third
  attempt, and returns the successful result.
\<close>

theorem aria2_call_retry_budget_witness:
  "fst (aria2_call flaky (Unpause ''g'') demo_world) = Some (Body (Some ''OK''))
   \<and> since demo_world (snd (aria2_call flaky (Unpause ''g'') demo_world))
       = [Posted (Unpause ''g'') 0, Slept 1, Posted (Unpause ''g'') 1300, Slept 1,
          Posted (Unpause ''g'') 2600]"
proof -
  have call: "aria2_call flaky (Unpause ''g'') demo_world
      = (fst (aria2_call flaky (Unpause ''g'') demo_world),
         snd (aria2_call flaky (Unpause ''g'') demo_world))"
    by simp
  have c: "clock demo_world = 0" by (simp add: demo_world_def)
  have a1: "attempt_time flaky (Unpause ''g'') 0 1 = 1300"
    by (simp add: flaky_def Let_def)
  have a2: "attempt_time flaky (Unpause ''g'') 0 2 = 2600"
    by (simp add: flaky_def Let_def numeral_2_eq_2)
  show ?thesis
    using aria2_call_retry_budget [OF call]
    by (simp add: c a1 a2) (simp add: flaky_def)
qed

text \<open>
  C3. When a poll made before the deadline answers \<^verbatim>\<open>complete\<close>, the monitor returns at
  once: its artifacts are exactly the reported paths that are on the disk at that moment,
  in the order reported (the others are left out, nothing is raised); the run shows one
  terminal transition, to Completed; after the poll nothing is posted and nothing but
  printing happens.
\<close>

theorem monitor_complete:
  assumes "clock w - start_time < 1000 * timeout"
    and "aria2_call (rpc_status e) (TellStatus gid status_keys) w = (Some (Body (Some status)), w1)"
    and "st_status status = Some ''complete''"
    and "monitor_loop e gid name timeout start_time last_update w = (artifacts, w')"
  shows "artifacts = filter (path_exists w1) (reported_paths status)
       \<and> verdicts (since w w') = [DownloadCompleted name]
       \<and> requests (since w1 w') = []
       \<and> (\<forall>ev \<in> set (since w1 w'). \<exists>m. ev = Printed m)"
proof -
  obtain last_update' w2 where
    p: "progress_update name (completed_of status) (total_of status) (speed_of status) last_update w1
        = (last_update', w2)"
    by (cases "progress_update name (completed_of status) (total_of status) (speed_of status) last_update w1")
  have st: "state_of status = ''complete''"
    using assms(3) by (simp add: state_of_def)
  from monitor_loop_status [OF assms(1,2) p] st assms(4)
  have a: "artifacts = downloaded_paths w2 (case st_files status of None \<Rightarrow> [] | Some fs \<Rightarrow> fs)"
    and w': "w' = print (DownloadCompleted name) w2"
    by simp_all
  have ex: "path_exists w2 = path_exists w1"
    using progress_update_events(1) [OF p] by (simp add: path_exists_def fun_eq_iff)
  obtain evs where evs: "trace w1 = trace w @ evs" "call_events (TellStatus gid status_keys) evs"
    using aria2_call_events(1) [OF assms(2)] by blast
  have v: "verdicts evs = []"
    using evs(2) by (rule call_events_verdicts)
  from progress_update_events(3) [OF p]
  consider "trace w2 = trace w1"
    | "trace w2 = trace w1 @ [Printed (Progress (take 40 name) (completed_of status) (total_of status)
          (speed_of status) (eta_of (total_of status) (completed_of status) (speed_of status)))]"
    by blast
  then have rest: "verdicts (since w w') = [DownloadCompleted name]
       \<and> requests (since w1 w') = []
       \<and> (\<forall>ev \<in> set (since w1 w'). \<exists>m. ev = Printed m)"
    by cases (simp_all add: w' print_def emit_def since_def evs(1) v)
  show ?thesis
    using a rest by (simp add: downloaded_paths_filter ex reported_paths_def)
qed

text \<open>Two files are reported and one of them is on the disk: it alone is returned.\<close>

theorem monitor_complete_witness:
  "fst (monitor_loop (steady_env ''complete'') ''g'' ''job'' 600 0 0 demo_world) = [''/d/a.mkv'']
   \<and> reported_paths (demo_status ''complete'' 0) = [''/d/a.mkv'', ''/d/b.txt'']
   \<and> verdicts (since demo_world (snd (monitor_loop (steady_env ''complete'') ''g'' ''job'' 600 0 0 demo_world)))
       = [DownloadCompleted ''job'']"
proof -
  let ?w1 = "demo_world\<lparr>trace := [Posted (TellStatus ''g'' status_keys) 0]\<rparr>"
  have h1: "clock demo_world - 0 < 1000 * 600" by (simp add: demo_world_def)
  have h2: "aria2_call (rpc_status (steady_env ''complete'')) (TellStatus ''g'' status_keys) demo_world
      = (Some (Body (Some (demo_status ''complete'' 0))), ?w1)"
    by (simp add: aria2_call_unfold steady_env_def demo_world_def)
  have h3: "st_status (demo_status ''complete'' 0) = Some ''complete''"
    by (simp add: demo_status_def)
  have h4: "monitor_loop (steady_env ''complete'') ''g'' ''job'' 600 0 0 demo_world
      = (fst (monitor_loop (steady_env ''complete'') ''g'' ''job'' 600 0 0 demo_world),
         snd (monitor_loop (steady_env ''complete'') ''g'' ''job'' 600 0 0 demo_world))"
    by simp
  have r: "reported_paths (demo_status ''complete'' 0) = [''/d/a.mkv'', ''/d/b.txt'']"
    by (simp add: reported_paths_def demo_status_def List.map_filter_simps)
  have f: "filter (path_exists ?w1) [''/d/a.mkv'', ''/d/b.txt''] = [''/d/a.mkv'']"
    by (simp add: path_exists_def demo_world_def)
  from monitor_complete [OF h1 h2 h3 h4]
  have "fst (monitor_loop (steady_env ''complete'') ''g'' ''job'' 600 0 0 demo_world)
          = filter (path_exists ?w1) (reported_paths (demo_status ''complete'' 0))"
    and "verdicts (since demo_world (snd (monitor_loop (steady_env ''complete'') ''g'' ''job'' 600 0 0 demo_world)))
          = [DownloadCompleted ''job'']"
    by blast+
  then show ?thesis
    unfolding r f using r by simp
qed

text \<open>
  C6. When a poll made before the deadline answers \<^verbatim>\<open>error\<close> or \<^verbatim>\<open>removed\<close>, the monitor
  returns the empty list within that tick: the run shows one terminal transition, to
  Failed, and after the poll nothing is posted, no sleep is taken, only printing happens.
\<close>

theorem monitor_failed:
  assumes "clock w - start_time < 1000 * timeout"
    and "aria2_call (rpc_status e) (TellStatus gid status_keys) w = (Some (Body (Some status)), w1)"
    and "st_status status = Some ''error'' \<or> st_status status = Some ''removed''"
    and "monitor_loop e gid name timeout start_time last_update w = (artifacts, w')"
  shows "artifacts = []
       \<and> verdicts (since w w') = [DownloadFailed name]
       \<and> requests (since w1 w') = []
       \<and> (\<forall>ev \<in> set (since w1 w'). \<exists>m. ev = Printed m)"
proof -
  obtain last_update' w2 where
    p: "progress_update name (completed_of status) (total_of status) (speed_of status) last_update w1
        = (last_update', w2)"
    by (cases "progress_update name (completed_of status) (total_of status) (speed_of status) last_update w1")
  have st: "state_of status \<noteq> ''complete''" "state_of status = ''error'' \<or> state_of status = ''removed''"
    using assms(3) by (auto simp add: state_of_def)
  from monitor_loop_status [OF assms(1,2) p] st assms(4)
  have a: "artifacts = []" and w': "w' = print (DownloadFailed name) w2"
    by simp_all
  obtain evs where evs: "trace w1 = trace w @ evs" "call_events (TellStatus gid status_keys) evs"
    using aria2_call_events(1) [OF assms(2)] by blast
  have v: "verdicts evs = []"
    using evs(2) by (rule call_events_verdicts)
  from progress_update_events(3) [OF p]
  consider "trace w2 = trace w1"
    | "trace w2 = trace w1 @ [Printed (Progress (take 40 name) (completed_of status) (total_of status)
          (speed_of status) (eta_of (total_of status) (completed_of status) (speed_of status)))]"
    by blast
  then have rest: "verdicts (since w w') = [DownloadFailed name]
       \<and> requests (since w1 w') = []
       \<and> (\<forall>ev \<in> set (since w1 w'). \<exists>m. ev = Printed m)"
    by cases (simp_all add: w' print_def emit_def since_def evs(1) v)
  show ?thesis
    using a rest by simp
qed

text \<open>The scenario of the specification: the engine reports an error on the first poll.\<close>

theorem monitor_failed_witness:
  "fst (monitor_loop (steady_env ''error'') ''g'' ''job'' 600 0 0 demo_world) = []
   \<and> verdicts (since demo_world (snd (monitor_loop (steady_env ''error'') ''g'' ''job'' 600 0 0 demo_world)))
       = [DownloadFailed ''job'']
   \<and> requests (trace (snd (monitor_loop (steady_env ''error'') ''g'' ''job'' 600 0 0 demo_world)))
       = [TellStatus ''g'' status_keys]"
proof -
  let ?w1 = "demo_world\<lparr>trace := [Posted (TellStatus ''g'' status_keys) 0]\<rparr>"
  have h1: "clock demo_world - 0 < 1000 * 600" by (simp add: demo_world_def)
  have h2: "aria2_call (rpc_status (steady_env ''error'')) (TellStatus ''g'' status_keys) demo_world
      = (Some (Body (Some (demo_status ''error'' 0))), ?w1)"
    by (simp add: aria2_call_unfold steady_env_def demo_world_def)
  have h3: "st_status (demo_status ''error'' 0) = Some ''error''
      \<or> st_status (demo_status ''error'' 0) = Some ''removed''"
    by (simp add: demo_status_def)
  have h4: "monitor_loop (steady_env ''error'') ''g'' ''job'' 600 0 0 demo_world
      = (fst (monitor_loop (steady_env ''error'') ''g'' ''job'' 600 0 0 demo_world),
         snd (monitor_loop (steady_env ''error'') ''g'' ''job'' 600 0 0 demo_world))"
    by simp
  have r: "requests (trace (snd (monitor_loop (steady_env ''error'') ''g'' ''job'' 600 0 0 demo_world)))
      = [TellStatus ''g'' status_keys]"
    by (simp add: monitor_eval steady_env_def)
  from monitor_failed [OF h1 h2 h3 h4]
  have "fst (monitor_loop (steady_env ''error'') ''g'' ''job'' 600 0 0 demo_world) = []"
    and "verdicts (since demo_world (snd (monitor_loop (steady_env ''error'') ''g'' ''job'' 600 0 0 demo_world)))
          = [DownloadFailed ''job'']"
    by blast+
  then show ?thesis using r by simp
qed

text \<open>
  C9, as the specification states it, fails: at rate 0 the line printed carries the
  ETA 0, not the remaining byte count. Here 600 bytes remain of 1000 and the rate is 0 at
  the first poll, whose answer comes after five seconds.
\<close>

theorem progress_eta_counterexample:
  "trace (snd (monitor_download stalled_env ''g'' ''job'' 600 demo_world))
     = [Printed (Monitoring ''job''), Posted (TellStatus ''g'' status_keys) 0,
        Printed (Progress ''job'' 400 1000 0 0), Slept 2,
        Posted (TellStatus ''g'' status_keys) 7000, Printed (DownloadCompleted ''job'')]
   \<and> eta_spec 1000 400 0 = 600"
  by (simp add: monitor_eval stalled_env_def eta_spec_def)

text \<open>
  C9, amended. At a poll made before the deadline whose status is not terminal, with
  total bytes above 0 and at least five seconds since the last line, the monitor prints a
  progress line carrying the counters of that status and goes on after its sleep of two
  seconds; the ETA of the line is the remaining bytes divided by \<open>max(rate, 1)\<close>, rounded
  down, when the rate is positive, and 0 when the rate is 0.
\<close>

theorem progress_eta:
  assumes "clock w - start_time < 1000 * timeout"
    and "aria2_call (rpc_status e) (TellStatus gid status_keys) w = (Some (Body (Some status)), w1)"
    and "\<not> terminal status"
    and "total_of status > 0"
    and "clock w1 - last_update \<ge> 5000"
  shows "monitor_loop e gid name timeout start_time last_update w
         = monitor_loop e gid name timeout start_time (clock w1)
             (sleep 2 (print (Progress (take 40 name) (completed_of status) (total_of status)
                 (speed_of status)
                 (if speed_of status > 0
                  then eta_spec (total_of status) (completed_of status) (speed_of status)
                  else 0)) w1))"
proof -
  let ?eta = "if speed_of status > 0
      then eta_spec (total_of status) (completed_of status) (speed_of status) else 0"
  have eta: "eta_of (total_of status) (completed_of status) (speed_of status) = ?eta"
    by (simp add: eta_of_def eta_spec_def)
  have p: "progress_update name (completed_of status) (total_of status) (speed_of status) last_update w1
      = (clock w1, print (Progress (take 40 name) (completed_of status) (total_of status)
           (speed_of status) ?eta) w1)"
    using assms(4,5) eta by (simp add: progress_update_def Let_def)
  show ?thesis
    using monitor_loop_status [OF assms(1,2) p] assms(3)
    by (simp add: state_terminal)
qed

theorem progress_eta_witness:
  "monitor_loop stalled_env ''g'' ''job'' 600 0 0 demo_world
     = monitor_loop stalled_env ''g'' ''job'' 600 0 5000
         \<lparr>clock = 7000, disk = [''/d/a.mkv'' \<mapsto> ''video''],
          trace = [Posted (TellStatus ''g'' status_keys) 0,
                   Printed (Progress ''job'' 400 1000 0 0), Slept 2]\<rparr>"
proof -
  let ?w1 = "demo_world\<lparr>clock := 5000, trace := [Posted (TellStatus ''g'' status_keys) 0]\<rparr>"
  have h1: "clock demo_world - 0 < 1000 * 600" by (simp add: demo_world_def)
  have h2: "aria2_call (rpc_status stalled_env) (TellStatus ''g'' status_keys) demo_world
      = (Some (Body (Some (demo_status ''active'' 0))), ?w1)"
    by (simp add: aria2_call_unfold stalled_env_def demo_world_def)
  have h3: "\<not> terminal (demo_status ''active'' 0)"
    by (simp add: terminal_def demo_status_def)
  have h4: "total_of (demo_status ''active'' 0) > 0"
    by (simp add: total_of_def demo_status_def)
  have h5: "clock ?w1 - 0 \<ge> 5000" by simp
  show ?thesis
    using progress_eta [OF h1 h2 h3 h4 h5, of "''job''"]
    by (simp add: completed_of_def total_of_def speed_of_def demo_status_def demo_world_def
        print_def emit_def sleep_def)
qed

text \<open>
  C2, as the specification states it, fails. The deadline is tested only before a poll
  is started, and a poll started before it is carried through, retries included. Here no
  attempt posted in the first 600 seconds shows a terminal status; the poll started at
  592 s fails once, is retried at 607 s, finds the job complete, and the monitor returns
  the artifact 607 seconds after the session started.
\<close>

theorem monitor_timeout_counterexample:
  "fst (monitor_download late_env ''g'' ''job'' 600 demo_world) = [''/d/a.mkv'']
   \<and> clock (snd (monitor_download late_env ''g'' ''job'' 600 demo_world)) - clock demo_world = 607000
   \<and> \<not> (\<exists>t. t < clock demo_world + 1000 * 600
            \<and> \<not> quiet (rpc_status late_env (TellStatus ''g'' status_keys) t))"
proof -
  have "fst (monitor_download late_env ''g'' ''job'' 600 demo_world) = [''/d/a.mkv'']
      \<and> clock (snd (monitor_download late_env ''g'' ''job'' 600 demo_world)) = 607000"
    by (simp add: monitor_eval late_env_def)
  moreover have "clock demo_world = 0" by (simp add: demo_world_def)
  moreover have "\<And>t. t < 600000 \<Longrightarrow> quiet (rpc_status late_env (TellStatus ''g'' status_keys) t)"
    by (simp add: late_env_def quiet_def terminal_def demo_status_def)
  ultimately show ?thesis by auto
qed

text \<open>
  C2, amended. No poll is started once the time elapsed since the session started has
  reached the timeout: from a state at or past the deadline the loop returns the empty
  list with the transition to TimedOut, whatever the engine would answer then. A session
  in which no attempt the monitor posts shows a terminal status therefore ends in this
  way: it returns the empty list, its one terminal transition is to TimedOut, at least the
  timeout has elapsed, and every poll of the session was started strictly before the
  deadline. The deadline is tested only between polls, so the session ends at the first
  test at or after it: when every attempt is answered within \<open>L\<close> milliseconds, less than
  \<open>3 * L + 4000\<close> milliseconds after the deadline (the three attempts of a poll, their two
  pauses of one second and the pause of two seconds that follows the poll), or at once
  when that instant is already past as the session starts.
\<close>

theorem monitor_timeout:
  assumes "monitor_download e gid name timeout w = (artifacts, w')"
    and "\<forall>t. Posted (TellStatus gid status_keys) t \<in> set (since w w')
           \<longrightarrow> quiet (rpc_status e (TellStatus gid status_keys) t)"
  shows "artifacts = [] \<and> 1000 * timeout \<le> clock w' - clock w
       \<and> verdicts (since w w') = [TimedOut name]
       \<and> (\<forall>t \<in> set (call_starts (since w w')). t - clock w < 1000 * timeout)
       \<and> ((\<forall>t. fst (rpc_status e (TellStatus gid status_keys) t) \<le> L)
            \<longrightarrow> clock w' - clock w \<le> max 0 (1000 * timeout + 3 * int L + 3999))
       \<and> (\<forall>ws last_update. 1000 * timeout \<le> clock ws - clock w \<longrightarrow>
            monitor_loop e gid name timeout (clock w) last_update ws
              = ([], print (TimedOut name) ws))"
proof -
  let ?w0 = "print (Monitoring name) w"
  have run: "monitor_loop e gid name timeout (clock w) (clock w) ?w0 = (artifacts, w')"
    using assms(1) by (simp add: monitor_download_def Let_def print_def emit_def)
  have t0: "trace ?w0 = trace w @ [Printed (Monitoring name)]"
    by (simp add: print_def emit_def)
  have k0: "clock ?w0 = clock w" by (simp add: print_def emit_def)
  obtain evs where evs: "trace w' = trace ?w0 @ evs"
    and starts: "\<forall>t \<in> set (starts_from False evs). t - clock w < 1000 * timeout"
    using monitor_loop_starts [OF run] by blast
  have sub: "set (since ?w0 w') \<subseteq> set (since w w')"
    using since_mono(1) [OF t0 evs] .
  have q: "\<forall>t. Posted (TellStatus gid status_keys) t \<in> set (since ?w0 w')
      \<longrightarrow> quiet (rpc_status e (TellStatus gid status_keys) t)"
    using assms(2) sub by blast
  have s: "since w w' = [Printed (Monitoring name)] @ evs" using since_trans [OF t0 evs] .
  have s0: "since ?w0 w' = evs" using since_append [OF evs] .
  have old: "artifacts = [] \<and> 1000 * timeout \<le> clock w' - clock w
      \<and> verdicts (since w w') = [TimedOut name]"
    using monitor_loop_timeout [OF run q] s s0 by simp
  have polls: "\<forall>t \<in> set (call_starts (since w w')). t - clock w < 1000 * timeout"
    using starts by (simp add: s call_starts_def)
  have ceiling: "clock w' - clock w \<le> max 0 (1000 * timeout + 3 * int L + 3999)"
    if "\<forall>t. fst (rpc_status e (TellStatus gid status_keys) t) \<le> L"
    using monitor_loop_ceiling [OF that run] k0 by simp
  have stop: "monitor_loop e gid name timeout (clock w) last_update ws
      = ([], print (TimedOut name) ws)"
    if "1000 * timeout \<le> clock ws - clock w" for ws last_update
    using that by (intro monitor_loop_deadline) simp
  show ?thesis using old polls ceiling stop by blast
qed

text \<open>
  A job that is active for six seconds and complete afterwards, watched with a timeout of
  four seconds: the polls start at 0 and 3 s, the deadline is seen at 6 s, when the engine
  would report the job complete, and nothing is returned.
\<close>

theorem monitor_timeout_witness:
  "fst (monitor_download slow_env ''g'' ''job'' 4 demo_world) = []
   \<and> clock (snd (monitor_download slow_env ''g'' ''job'' 4 demo_world)) - clock demo_world = 6000
   \<and> verdicts (since demo_world (snd (monitor_download slow_env ''g'' ''job'' 4 demo_world)))
       = [TimedOut ''job'']
   \<and> call_starts (since demo_world (snd (monitor_download slow_env ''g'' ''job'' 4 demo_world)))
       = [0, 3000]
   \<and> \<not> quiet (rpc_status slow_env (TellStatus ''g'' status_keys) 6000)
   \<and> monitor_loop slow_env ''g'' ''job'' 4 (clock demo_world) 0
        (snd (monitor_download slow_env ''g'' ''job'' 4 demo_world))
       = ([], print (TimedOut ''job'') (snd (monitor_download slow_env ''g'' ''job'' 4 demo_world)))"
proof -
  let ?run = "monitor_download slow_env ''g'' ''job'' 4 demo_world"
  have h: "?run = (fst ?run, snd ?run)" by simp
  have tr: "since demo_world (snd ?run)
      = [Printed (Monitoring ''job''), Posted (TellStatus ''g'' status_keys) 0,
         Slept 2, Posted (TellStatus ''g'' status_keys) 3000, Slept 2, Printed (TimedOut ''job'')]"
    by (simp add: monitor_eval slow_env_def since_def)
  have k: "clock (snd ?run) = 6000" by (simp add: monitor_eval slow_env_def)
  have k0: "clock demo_world = 0" by (simp add: demo_world_def)
  have q: "\<forall>t. Posted (TellStatus ''g'' status_keys) t \<in> set (since demo_world (snd ?run))
      \<longrightarrow> quiet (rpc_status slow_env (TellStatus ''g'' status_keys) t)"
    unfolding tr by (auto simp add: slow_env_def quiet_def terminal_def demo_status_def)
  have l: "\<forall>t. fst (rpc_status slow_env (TellStatus ''g'' status_keys) t) \<le> 1000"
    by (simp add: slow_env_def)
  have late: "\<not> quiet (rpc_status slow_env (TellStatus ''g'' status_keys) 6000)"
    by (simp add: slow_env_def quiet_def terminal_def demo_status_def)
  have cs: "call_starts (since demo_world (snd ?run)) = [0, 3000]"
    by (simp add: tr call_starts_def)
  note t = monitor_timeout [OF h q, of 1000]
  have "1000 * 4 \<le> clock (snd ?run) - clock demo_world" using k k0 by simp
  then have "monitor_loop slow_env ''g'' ''job'' 4 (clock demo_world) 0 (snd ?run)
      = ([], print (TimedOut ''job'') (snd ?run))"
    using t by blast
  then show ?thesis using t k k0 cs late by simp
qed

text \<open>
  C1. Let the metadata wait of \<^verbatim>\<open>apply_file_selection\<close> return a file list of length
  \<open>N\<close> (the empty list when the metadata never came). The selection requests posted are
  exactly those for the indices below \<open>N\<close>, index \<open>i\<close> being marked selected iff \<open>i\<close> is in
  the selection set; an index of the set outside the range gives no request. So the
  selection asked of the engine is: below \<open>N\<close>, selected iff in the set; elsewhere, whatever
  it was. Applying the same set again, to a file list of the same length, asks for the
  same selection.
\<close>

theorem apply_file_selection_selects:
  fixes S :: "int list"
  assumes "get_torrent_files e gid 15 (print ApplyingSelection w) = (files, w1)"
  defines "w' \<equiv> apply_file_selection e gid S w"
  shows "{r \<in> set (requests (since w w')). \<exists>g i b. r = SelectFile g i b}
           = wanted gid S ` {..<length files}
       \<and> (\<forall>m j. marks gid m (since w w') j = (if j < length files then int j \<in> set S else m j))
       \<and> (\<forall>e2 files2 w2. get_torrent_files e2 gid 15 (print ApplyingSelection w') = (files2, w2)
              \<and> length files2 = length files
            \<longrightarrow> (\<forall>m j. marks gid m (since w (apply_file_selection e2 gid S w')) j
                        = marks gid m (since w w') j))"
proof -
  obtain evs where evs: "trace w' = trace w @ evs"
    "\<And>m j. marks gid m evs j = (if j < length files then int j \<in> set S else m j)"
    "{r \<in> set (requests evs). \<exists>g i b. r = SelectFile g i b} = wanted gid S ` {..<length files}"
    using apply_file_selection_marks [OF assms(1)] unfolding w'_def by blast
  have s: "since w w' = evs" using evs(1) by (rule since_append)
  have again: "marks gid m (since w (apply_file_selection e2 gid S w')) j = marks gid m (since w w') j"
    if a: "get_torrent_files e2 gid 15 (print ApplyingSelection w') = (files2, w2)"
      and l: "length files2 = length files" for e2 files2 w2 m j
  proof -
    obtain evs2 where evs2: "trace (apply_file_selection e2 gid S w') = trace w' @ evs2"
      "\<And>m j. marks gid m evs2 j = (if j < length files2 then int j \<in> set S else m j)"
      using apply_file_selection_marks [OF a] by blast
    have "since w (apply_file_selection e2 gid S w') = evs @ evs2"
      using since_trans [OF evs(1) evs2(1)] .
    then show ?thesis by (simp add: s evs(2) evs2(2) l)
  qed
  show ?thesis
    unfolding s using evs(2,3) again [unfolded s] by blast
qed

text \<open>
  The scenario of the specification, selection \<open>{0, 2}\<close> over three files, with the index
  7 added to the set: it is out of range and gives no request.
\<close>

theorem apply_file_selection_selects_witness:
  "requests (since demo_world (apply_file_selection select_env ''g'' [0, 2, 7] demo_world))
     = [poll_request ''g'', SelectFile ''g'' 0 True, SelectFile ''g'' 1 False,
        SelectFile ''g'' 2 True, Unpause ''g'']
   \<and> marks ''g'' (\<lambda>i. False) (since demo_world (apply_file_selection select_env ''g'' [0, 2, 7] demo_world)) 0
   \<and> \<not> marks ''g'' (\<lambda>i. False) (since demo_world (apply_file_selection select_env ''g'' [0, 2, 7] demo_world)) 1
   \<and> marks ''g'' (\<lambda>i. False) (since demo_world (apply_file_selection select_env ''g'' [0, 2, 7] demo_world)) 2
   \<and> \<not> marks ''g'' (\<lambda>i. False) (since demo_world (apply_file_selection select_env ''g'' [0, 2, 7] demo_world)) 7"
proof -
  let ?w' = "apply_file_selection select_env ''g'' [0, 2, 7] demo_world"
  have g: "get_torrent_files select_env ''g'' 15 (print ApplyingSelection demo_world)
      = (the (st_files three_files),
         demo_world\<lparr>trace := [Printed ApplyingSelection, Posted (TellStatus ''g'' [''files'']) 0]\<rparr>)"
    by (simp add: get_torrent_files_def get_torrent_files_loop.simps aria2_call_unfold
        select_env_def three_files_def demo_world_def print_def emit_def)
  have n: "length (the (st_files three_files)) = 3" by (simp add: three_files_def)
  have r: "requests (since demo_world ?w')
      = [poll_request ''g'', SelectFile ''g'' 0 True, SelectFile ''g'' 1 False,
         SelectFile ''g'' 2 True, Unpause ''g'']"
    by (simp add: apply_file_selection_def get_torrent_files_def get_torrent_files_loop.simps
        aria2_call_unfold select_file_def select_env_def three_files_def demo_world_def
        print_def emit_def since_def poll_request_def upt_rec)
  note t = apply_file_selection_selects [OF g, of "[0, 2, 7]", unfolded n]
  have m: "marks ''g'' (\<lambda>i. False) (since demo_world ?w') j = (if j < 3 then int j \<in> set [0, 2, 7] else False)"
    for j
    using conjunct1 [OF conjunct2 [OF t], rule_format, of "\<lambda>i. False" j] .
  show ?thesis
    using r m [of 0] m [of 1] m [of 2] m [of 7] by simp
qed



text \<open>
  C7, as the specification states it, fails: the loop does not stop at the first tag
  whose output file exists and exceeds 100 bytes, it stops at the first tag whose run also
  exits with code 0. Here the run for \<^verbatim>\<open>fre\<close> exits with code 1 and leaves 200 bytes in
  its output file; the three other tags and the fallback are tried all the same, and
  nothing is extracted.
\<close>

theorem extract_subtitles_order_counterexample:
  "fst (extract_subtitles partial_env ''/d/a.mkv'' demo_world) = []
   \<and> commands_run (trace (snd (extract_subtitles partial_env ''/d/a.mkv'' demo_world)))
       = [language_cmd ''/d/a.mkv'' ''fre'' ''/d/a.fre.srt'',
          language_cmd ''/d/a.mkv'' ''fra'' ''/d/a.fra.srt'',
          language_cmd ''/d/a.mkv'' ''fr'' ''/d/a.fr.srt'',
          language_cmd ''/d/a.mkv'' ''french'' ''/d/a.french.srt'',
          fallback_cmd ''/d/a.mkv'' ''/d/a.srt'']
   \<and> map_option length
         (disk (snd (run partial_env (language_cmd ''/d/a.mkv'' ''fre'' ''/d/a.fre.srt'')
                       ''/d/a.fre.srt'' demo_world)) ''/d/a.fre.srt'') = Some 200
   \<and> map_option length
         (disk (snd (extract_subtitles partial_env ''/d/a.mkv'' demo_world)) ''/d/a.fre.srt'')
       = Some 200"
  by (simp add: post_eval partial_env_def)

text \<open>
  C7, amended. For a video that is on the disk, a tag succeeds when its run exits with
  code 0 and leaves an output file of more than 100 bytes. The tags are tried in the order
  fre, fra, fr, french, one run of the tool each, up to and including the first tag that
  succeeds, whose output file is the result; no later tag is tried and the fallback is not
  run. When none of the four succeeds, the tool is run once more for the first subtitle
  stream, and its output file is the result when that run exits with code 0 and the file
  is there, whatever its size.
\<close>

theorem extract_subtitles_order:
  fixes e :: env and w :: world and video_path :: string
  defines "base \<equiv> splitext_root video_path"
  defines "ok \<equiv> tag_success e w video_path base"
  assumes "path_exists w video_path"
    and "extract_subtitles e video_path w = (extracted, w')"
  shows "languages = [''fre'', ''fra'', ''fr'', ''french'']
     \<and> (case find ok languages of
          Some lang \<Rightarrow>
            extracted = [tag_output base lang]
            \<and> commands_run (since w w')
                = map (tag_cmd video_path base) (takeWhile (\<lambda>l. \<not> ok l) languages @ [lang])
        | None \<Rightarrow>
            commands_run (since w w')
              = map (tag_cmd video_path base) languages @ [fallback_cmd video_path (base @ ''.srt'')]
            \<and> extracted = (if fallback_success e w video_path base then [base @ ''.srt''] else []))"
proof (rule conjI)
  show "languages = [''fre'', ''fra'', ''fr'', ''french'']" by (rule languages_def)
next
  let ?w0 = "print (ExtractingSubtitles (basename video_path)) w"
  let ?hd = "Printed (ExtractingSubtitles (basename video_path))"
  obtain res w1 where t: "try_languages e video_path base languages ?w0 = (res, w1)"
    by (cases "try_languages e video_path base languages ?w0")
  have dist: "distinct languages" by (simp add: languages_def)
  have inv: "\<forall>l \<in> set languages. disk ?w0 (tag_output base l) = disk w (tag_output base l)"
    by (simp add: print_def emit_def)
  note run = try_languages_run [OF dist inv t, folded ok_def]
  then obtain evs where tr: "trace w1 = trace ?w0 @ evs"
    and cs: "case find ok languages of
        Some l \<Rightarrow> res = [tag_output base l]
          \<and> commands_run evs = map (tag_cmd video_path base) (takeWhile (\<lambda>l. \<not> ok l) languages @ [l])
      | None \<Rightarrow> res = [] \<and> commands_run evs = map (tag_cmd video_path base) languages
          \<and> (\<forall>p. p \<notin> tag_output base ` set languages \<longrightarrow> disk w1 p = disk ?w0 p)"
    by (elim exE conjE)
  have t0: "trace ?w0 = trace w @ [?hd]" by (simp add: print_def emit_def)
  have ex: "extract_subtitles e video_path w
      = (if res = [] then extract_fallback e video_path base w1 else (res, w1))"
    using assms(3) t unfolding extract_subtitles_def Let_def base_def [symmetric] by simp
  show "case find ok languages of
          Some lang \<Rightarrow>
            extracted = [tag_output base lang]
            \<and> commands_run (since w w')
                = map (tag_cmd video_path base) (takeWhile (\<lambda>l. \<not> ok l) languages @ [lang])
        | None \<Rightarrow>
            commands_run (since w w')
              = map (tag_cmd video_path base) languages @ [fallback_cmd video_path (base @ ''.srt'')]
            \<and> extracted = (if fallback_success e w video_path base then [base @ ''.srt''] else [])"
  proof (cases "find ok languages")
    case (Some lang)
    have r: "res = [tag_output base lang]"
      and c: "commands_run evs = map (tag_cmd video_path base) (takeWhile (\<lambda>l. \<not> ok l) languages @ [lang])"
      using cs unfolding Some by simp_all
    have "(extracted, w') = (res, w1)" using ex assms(4) r by simp
    then have e1: "extracted = res" and e2: "w' = w1" by simp_all
    have "since w w1 = [?hd] @ evs" using t0 tr by (rule since_trans)
    then have "commands_run (since w w') = commands_run evs" unfolding e2 by simp
    then show ?thesis unfolding Some using e1 r c by simp
  next
    case None
    have r: "res = []"
      and c: "commands_run evs = map (tag_cmd video_path base) languages"
      and keep: "\<forall>p. p \<notin> tag_output base ` set languages \<longrightarrow> disk w1 p = disk ?w0 p"
      using cs unfolding None by simp_all
    have fb: "extract_fallback e video_path base w1 = (extracted, w')"
      using ex assms(4) r by simp
    have "base @ ''.srt'' \<notin> tag_output base ` set languages" using fallback_not_tag by blast
    then have "disk w1 (base @ ''.srt'') = disk ?w0 (base @ ''.srt'')" using keep by blast
    then have d1: "disk w1 (base @ ''.srt'') = disk w (base @ ''.srt'')"
      by (simp add: print_def emit_def)
    note f = extract_fallback_run [OF fb d1]
    obtain tl where tl: "trace w' = trace w1 @ (Ran (fallback_cmd video_path (base @ ''.srt'')) # tl)"
      "commands_run tl = []"
      using f(2) by blast
    have "trace w1 = trace w @ ([?hd] @ evs)" using t0 tr by simp
    then have "since w w' = ([?hd] @ evs) @ (Ran (fallback_cmd video_path (base @ ''.srt'')) # tl)"
      using tl(1) by (rule since_trans)
    then have "commands_run (since w w')
        = map (tag_cmd video_path base) languages @ [fallback_cmd video_path (base @ ''.srt'')]"
      using c tl(2) by simp
    then show ?thesis unfolding None using f(1) by simp
  qed
qed

text \<open>
  Only \<^verbatim>\<open>fr\<close> succeeds: the result carries the tag \<^verbatim>\<open>fr\<close>, and \<^verbatim>\<open>french\<close> is never tried.
\<close>

theorem extract_subtitles_order_witness:
  "fst (extract_subtitles fr_env ''/d/a.mkv'' demo_world) = [''/d/a.fr.srt'']
   \<and> commands_run (since demo_world (snd (extract_subtitles fr_env ''/d/a.mkv'' demo_world)))
       = [language_cmd ''/d/a.mkv'' ''fre'' ''/d/a.fre.srt'',
          language_cmd ''/d/a.mkv'' ''fra'' ''/d/a.fra.srt'',
          language_cmd ''/d/a.mkv'' ''fr'' ''/d/a.fr.srt'']"
proof -
  have h1: "path_exists demo_world ''/d/a.mkv''"
    by (simp add: path_exists_def demo_world_def)
  have h2: "extract_subtitles fr_env ''/d/a.mkv'' demo_world
      = (fst (extract_subtitles fr_env ''/d/a.mkv'' demo_world),
         snd (extract_subtitles fr_env ''/d/a.mkv'' demo_world))"
    by simp
  have s: "splitext_root ''/d/a.mkv'' = ''/d/a''"
    by (simp add: splitext_root_def basename_def)
  have ok: "\<not> tag_success fr_env demo_world ''/d/a.mkv'' ''/d/a'' ''fre''"
    "\<not> tag_success fr_env demo_world ''/d/a.mkv'' ''/d/a'' ''fra''"
    "tag_success fr_env demo_world ''/d/a.mkv'' ''/d/a'' ''fr''"
    by (simp_all add: tag_success_def tag_cmd_def tag_output_def fr_env_def language_cmd_def
        exits_zero_def content_after_def written_def demo_world_def)
  have f: "find (tag_success fr_env demo_world ''/d/a.mkv'' ''/d/a'') languages = Some ''fr''"
    by (simp add: languages_def ok)
  have t: "takeWhile (\<lambda>l. \<not> tag_success fr_env demo_world ''/d/a.mkv'' ''/d/a'' l) languages
      = [''fre'', ''fra'']"
    by (simp add: languages_def ok)
  show ?thesis
    using extract_subtitles_order [OF h1 h2]
    unfolding s f t by (simp add: tag_cmd_def tag_output_def)
qed

text \<open>
  C8. An artifact path that is not on the disk is skipped: the loop body leaves the world
  as it is, so nothing is raised and no move is tried. After a successful relocation the
  source path is not on the disk any more and the file is in the output directory, the
  move being the last effect; hence running the step again on that path, with any tool,
  changes nothing. A whole run over paths none of which is on the disk only prints its two
  lines.
\<close>

theorem relocation_idempotent:
  "(\<not> path_exists w file_path \<longrightarrow> process_file e file_path w = (None, w))
   \<and> (path_exists w file_path \<and> process_file e file_path w = (None, w')
        \<longrightarrow> \<not> path_exists w' file_path
          \<and> path_exists w' (OUTPUT_DIR @ ''/'' @ basename file_path)
          \<and> last (trace w') = Moved file_path (OUTPUT_DIR @ ''/'' @ basename file_path)
          \<and> process_file e2 file_path w' = (None, w'))
   \<and> ((\<forall>p \<in> set files. \<not> path_exists w p)
        \<longrightarrow> process_downloaded_files e files name w
            = (None, print (CompletedProcessing name) (print (ProcessingFiles (length files) name) w)))"
proof (intro conjI impI)
  assume "\<not> path_exists w file_path"
  then show "process_file e file_path w = (None, w)" by (rule process_file_absent)
next
  assume a: "path_exists w file_path \<and> process_file e file_path w = (None, w')"
  then obtain w2 where m: "shutil_move file_path OUTPUT_DIR w2 = (None, w')"
    using process_file_moves by blast
  show gone: "\<not> path_exists w' file_path" using shutil_move_ok(1) [OF m] .
  show "path_exists w' (OUTPUT_DIR @ ''/'' @ basename file_path)" using shutil_move_ok(2) [OF m] .
  show "last (trace w') = Moved file_path (OUTPUT_DIR @ ''/'' @ basename file_path)"
    using shutil_move_ok(3) [OF m] by simp
  show "process_file e2 file_path w' = (None, w')" using gone by (rule process_file_absent)
next
  assume a: "\<forall>p \<in> set files. \<not> path_exists w p"
  let ?w0 = "print (ProcessingFiles (length files) name) w"
  have "\<forall>p \<in> set files. \<not> path_exists ?w0 p"
    using a by (simp add: path_exists_def print_def emit_def)
  then have "process_files e files ?w0 = (None, ?w0)" by (rule process_files_absent)
  then show "process_downloaded_files e files name w = (None, print (CompletedProcessing name) ?w0)"
    by (simp add: process_downloaded_files_def)
qed

theorem relocation_idempotent_witness:
  "fst (process_file down_env ''/d/a.mkv'' demo_world) = None
   \<and> path_exists demo_world ''/d/a.mkv''
   \<and> \<not> path_exists (snd (process_file down_env ''/d/a.mkv'' demo_world)) ''/d/a.mkv''
   \<and> last (trace (snd (process_file down_env ''/d/a.mkv'' demo_world)))
       = Moved ''/d/a.mkv'' ''/workspace/completed/a.mkv''
   \<and> process_file down_env ''/d/a.mkv'' (snd (process_file down_env ''/d/a.mkv'' demo_world))
       = (None, snd (process_file down_env ''/d/a.mkv'' demo_world))"
proof -
  let ?w' = "snd (process_file down_env ''/d/a.mkv'' demo_world)"
  have h1: "path_exists demo_world ''/d/a.mkv''"
    by (simp add: path_exists_def demo_world_def)
  have f: "fst (process_file down_env ''/d/a.mkv'' demo_world) = None"
    by (simp add: post_eval down_env_def idle_tool_def)
  then have h2: "process_file down_env ''/d/a.mkv'' demo_world = (None, ?w')"
    by (simp add: prod_eq_iff)
  have b: "OUTPUT_DIR @ ''/'' @ basename ''/d/a.mkv'' = ''/workspace/completed/a.mkv''"
    by (simp add: OUTPUT_DIR_def basename_def)
  note r = relocation_idempotent [of demo_world "''/d/a.mkv''" down_env ?w' down_env "[]" "''n''"]
  have "\<not> path_exists ?w' ''/d/a.mkv''
      \<and> path_exists ?w' (OUTPUT_DIR @ ''/'' @ basename ''/d/a.mkv'')
      \<and> last (trace ?w') = Moved ''/d/a.mkv'' (OUTPUT_DIR @ ''/'' @ basename ''/d/a.mkv'')
      \<and> process_file down_env ''/d/a.mkv'' ?w' = (None, ?w')"
    using r h1 h2 by blast
  then show ?thesis using f h1 unfolding b by blast
qed

text \<open>
  C10. When a job was submitted and the monitor returns the empty list, \<^verbatim>\<open>download_item\<close>
  returns \<^verbatim>\<open>False\<close> and leaves the world as the monitor left it: post-processing is not
  entered. The monitor returns the empty list for a failed session, for a session that
  timed out, and also (C3) for a session that completed while none of the reported files
  is on the disk; the caller sees \<^verbatim>\<open>False\<close> in all three cases.
\<close>

theorem download_item_empty:
  assumes "name = take 50 (if path_exists w item then basename item else item)"
    and "submit e item selected_files (print (StartingDownload name) w) = Some (Some gid, w1)"
    and "gid \<noteq> []"
    and "monitor_download e gid name 600 w1 = ([], w2)"
  shows "download_item e item selected_files w = (False, w2)"
  using assms by (simp add: download_item_def Let_def)

text \<open>
  The engine reports the job complete, with two files of which none is on the disk: the
  result is \<^verbatim>\<open>False\<close>, as it is when the engine reports an error.
\<close>

theorem download_item_empty_witness:
  "fst (download_item (steady_env ''complete'') ''magnet:?xt=1'' [] bare_world) = False
   \<and> verdicts (trace (snd (download_item (steady_env ''complete'') ''magnet:?xt=1'' [] bare_world)))
       = [DownloadCompleted ''magnet:?xt=1'']
   \<and> commands_run (trace (snd (download_item (steady_env ''complete'') ''magnet:?xt=1'' [] bare_world)))
       = []
   \<and> fst (download_item (steady_env ''error'') ''magnet:?xt=1'' [] bare_world) = False"
proof -
  let ?item = "''magnet:?xt=1''"
  let ?w1 = "\<lparr>clock = 0, disk = Map.empty,
      trace = [Printed (StartingDownload ?item), Posted (AddUri ?item) 0]\<rparr>"
  let ?w2 = "\<lparr>clock = 0, disk = Map.empty,
      trace = [Printed (StartingDownload ?item), Posted (AddUri ?item) 0,
               Printed (Monitoring ?item), Posted (TellStatus ''g'' status_keys) 0,
               Printed (DownloadCompleted ?item)]\<rparr>"
  have n: "?item = take 50 (if path_exists bare_world ?item then basename ?item else ?item)"
    by (simp add: path_exists_def bare_world_def)
  have s: "submit (steady_env ''complete'') ?item [] (print (StartingDownload ?item) bare_world)
      = Some (Some ''g'', ?w1)"
    by (simp add: submit_def path_exists_def bare_world_def startswith_def add_magnet_link_def
        aria2_call_unfold steady_env_def accepting_def print_def emit_def)
  have g: "''g'' \<noteq> []" by simp
  have m: "monitor_download (steady_env ''complete'') ''g'' ?item 600 ?w1 = ([], ?w2)"
    by (simp add: monitor_download_def monitor_loop.simps aria2_call_unfold steady_env_def
        demo_status_def progress_update_def print_def emit_def downloaded_paths_def
        path_exists_def Let_def)
  have c: "download_item (steady_env ''complete'') ?item [] bare_world = (False, ?w2)"
    using download_item_empty [OF n s g m] .
  have e: "fst (download_item (steady_env ''error'') ?item [] bare_world) = False"
    by (simp add: download_item_def submit_def path_exists_def bare_world_def startswith_def
        add_magnet_link_def aria2_call_unfold steady_env_def accepting_def print_def emit_def
        monitor_download_def monitor_loop.simps demo_status_def progress_update_def Let_def)
  show ?thesis unfolding c using e by simp
qed

end
